theory Spec2Isabelle
  imports Complex_Main "HOL-Library.AList" "HOL-Library.Sublist"
begin

section \<open>Python values used by the bot\<close>

text \<open>
  The bot (\<^verbatim>\<open>mann.py\<close>) keeps its tasks in a Python dict and stores result dicts
  inside them. A Python dict keeps its keys in insertion order, assigning to a key that
  is present keeps the key's place, and a lookup finds the one entry of a key: this is an
  association list read with \<open>map_of\<close> and written with \<open>AList.update\<close>.
  The values that the result dicts of the program hold are \<open>None\<close>, booleans,
  integers, strings and nested dicts with string keys.
\<close>

datatype pyval =
    PNone
  | PBool bool
  | PInt int
  | PStr string
  | PDict "(string \<times> pyval) list"

type_synonym pydict = "(string \<times> pyval) list"

text \<open>Python truth value of an object (\<^verbatim>\<open>if x:\<close>).\<close>

fun truthy :: "pyval \<Rightarrow> bool" where
  "truthy PNone = False"
| "truthy (PBool b) = b"
| "truthy (PInt i) = (i \<noteq> 0)"
| "truthy (PStr s) = (s \<noteq> [])"
| "truthy (PDict kvs) = (kvs \<noteq> [])"

text \<open>
  \<^verbatim>\<open>if results:\<close> for \<^verbatim>\<open>results: Optional[Dict]\<close>: false for \<open>None\<close> and
  for the empty dict.
\<close>

fun truthy_results :: "pydict option \<Rightarrow> bool" where
  "truthy_results None = False"
| "truthy_results (Some kvs) = (kvs \<noteq> [])"

subsection \<open>Decimal text of an integer: \<^verbatim>\<open>str(n)\<close>, \<^verbatim>\<open>f"{n}"\<close>\<close>

definition digit_char :: "nat \<Rightarrow> char" where
  "digit_char d = char_of (48 + d)"

function str_nat :: "nat \<Rightarrow> string" where
  "str_nat n = (if n < 10 then [digit_char n] else str_nat (n div 10) @ [digit_char (n mod 10)])"
  by pat_completeness auto
termination
  by (relation "measure id") auto

definition str_int :: "int \<Rightarrow> string" where
  "str_int i = (if i < 0 then CHR ''-'' # str_nat (nat (- i)) else str_nat (nat i))"

section \<open>Dates and times\<close>

text \<open>
  A \<^verbatim>\<open>datetime\<close> is a date, a time of day (\<open>tod\<close>) and a UTC offset. \<open>tzinfo\<close> is
  \<open>None\<close> for a naive datetime and \<open>Some m\<close> for an aware one, \<open>m\<close> the offset
  in minutes east of UTC. \<open>IST\<close> is the offset +05:30, the one in force in the zone
  \<^verbatim>\<open>pytz.timezone('Asia/Kolkata')\<close> at every instant since 1945-10-15.
\<close>

record date =
  year :: nat
  month :: nat
  day :: nat

record time_of_day =
  hour :: nat
  minute :: nat
  second :: nat
  microsecond :: nat

record datetime = date +
  tod :: time_of_day
  tzinfo :: "int option"

definition IST :: "int option" where
  "IST = Some 330"


text \<open>
  The exceptions of the modelled code. A \<^verbatim>\<open>ValueError\<close> comes with the place that
  raises it: the two \<^verbatim>\<open>raise ValueError(...)\<close> of \<^verbatim>\<open>parse_time_input\<close>,
  \<^verbatim>\<open>datetime.strptime\<close>, \<^verbatim>\<open>time.replace\<close> and \<^verbatim>\<open>datetime.fromisoformat\<close>.
  \<^verbatim>\<open>OverflowError\<close> is what \<^verbatim>\<open>+ timedelta(days=1)\<close> raises past the last date,
  9999-12-31; \<^verbatim>\<open>TypeError\<close> and \<^verbatim>\<open>KeyError\<close> arise when a stored dict has not the
  keys or the values of a task.
\<close>

datatype reason =
    CouldNotParseTimeFormat
  | MustBeInTheFuture
  | NotADate
  | HourOutOfRange
  | MinuteOutOfRange
  | NotIsoFormat

datatype error =
    ValueError reason
  | OverflowError
  | TypeError
  | KeyError

text \<open>Sequencing of steps that may raise.\<close>

definition and_then :: "error + 'a \<Rightarrow> ('a \<Rightarrow> error + 'b) \<Rightarrow> error + 'b" where
  "and_then r f = (case r of Inl e \<Rightarrow> Inl e | Inr x \<Rightarrow> f x)"

subsection \<open>The calendar\<close>

definition is_leap :: "nat \<Rightarrow> bool" where
  "is_leap y = (y mod 4 = 0 \<and> (y mod 100 \<noteq> 0 \<or> y mod 400 = 0))"

definition days_in_month :: "nat \<Rightarrow> nat \<Rightarrow> nat" where
  "days_in_month y m =
     (if m = 2 then (if is_leap y then 29 else 28)
      else if m = 4 \<or> m = 6 \<or> m = 9 \<or> m = 11 then 30 else 31)"

text \<open>
  The values a \<^verbatim>\<open>date\<close>, a \<^verbatim>\<open>time\<close> and a \<^verbatim>\<open>datetime\<close> object can hold: the
  constructors of the classes raise \<^verbatim>\<open>ValueError\<close> for all others.
\<close>

definition valid_date :: "'a date_scheme \<Rightarrow> bool" where
  "valid_date d =
     (1 \<le> year d \<and> year d \<le> 9999 \<and> 1 \<le> month d \<and> month d \<le> 12
      \<and> 1 \<le> day d \<and> day d \<le> days_in_month (year d) (month d))"

definition valid_time :: "time_of_day \<Rightarrow> bool" where
  "valid_time t = (hour t < 24 \<and> minute t < 60 \<and> second t < 60 \<and> microsecond t < 1000000)"

definition valid_datetime :: "datetime \<Rightarrow> bool" where
  "valid_datetime dt =
     (valid_date dt \<and> valid_time (tod dt)
      \<and> (case tzinfo dt of None \<Rightarrow> True | Some off \<Rightarrow> - 1440 < off \<and> off < 1440))"

text \<open>\<^verbatim>\<open>date.toordinal()\<close>: the number of the day, 0001-01-01 being day 1.\<close>

definition days_before_year :: "nat \<Rightarrow> int" where
  "days_before_year y =
     (let p = int y - 1 in p * 365 + p div 4 - p div 100 + p div 400)"

definition days_before_month :: "nat \<Rightarrow> nat \<Rightarrow> int" where
  "days_before_month y m = (\<Sum>k \<leftarrow> [1 ..< m]. int (days_in_month y k))"

definition toordinal :: "'a date_scheme \<Rightarrow> int" where
  "toordinal d = days_before_year (year d) + days_before_month (year d) (month d) + int (day d)"

text \<open>
  The instant of a datetime, in microseconds on the UTC scale. Two aware datetimes
  compare by their instants; every comparison the program makes is between aware
  datetimes (a naive one has offset 0 here, where Python would refuse to compare it
  with an aware one).
\<close>

definition utcoffset :: "datetime \<Rightarrow> int" where
  "utcoffset dt = (case tzinfo dt of None \<Rightarrow> 0 | Some off \<Rightarrow> off)"

definition instant :: "datetime \<Rightarrow> int" where
  "instant dt =
     (((toordinal dt * 24 + int (hour (tod dt))) * 60 + int (minute (tod dt)) - utcoffset dt) * 60
        + int (second (tod dt))) * 1000000
      + int (microsecond (tod dt))"

text \<open>\<^verbatim>\<open>a <= b\<close>\<close>

definition dt_le :: "datetime \<Rightarrow> datetime \<Rightarrow> bool" where
  "dt_le a b = (instant a \<le> instant b)"

text \<open>
  \<^verbatim>\<open>d + timedelta(days=1)\<close>, for a date or a datetime (whose time of day and
  \<open>tzinfo\<close> stay): the next day of the calendar, \<^verbatim>\<open>OverflowError\<close> after 9999-12-31.
\<close>

definition add_one_day :: "'a date_scheme \<Rightarrow> error + 'a date_scheme" where
  "add_one_day d =
     (if day d < days_in_month (year d) (month d) then Inr (d\<lparr>day := day d + 1\<rparr>)
      else if month d < 12 then Inr (d\<lparr>month := month d + 1, day := 1\<rparr>)
      else if year d < 9999 then Inr (d\<lparr>year := year d + 1, month := 1, day := 1\<rparr>)
      else Inl OverflowError)"

text \<open>
  \<^verbatim>\<open>dt.date()\<close>, \<^verbatim>\<open>datetime.combine(d, t)\<close> and
  \<^verbatim>\<open>dt.replace(tzinfo=tz)\<close>.
\<close>

definition date_of :: "datetime \<Rightarrow> date" where
  "date_of dt = \<lparr>year = year dt, month = month dt, day = day dt\<rparr>"

definition combine :: "date \<Rightarrow> time_of_day \<Rightarrow> datetime" where
  "combine d t = \<lparr>year = year d, month = month d, day = day d, tod = t, tzinfo = None\<rparr>"

definition replace_tzinfo :: "int option \<Rightarrow> datetime \<Rightarrow> datetime" where
  "replace_tzinfo tz dt = dt\<lparr>tzinfo := tz\<rparr>"

text \<open>
  \<^verbatim>\<open>IST.localize(dt)\<close> for a naive \<open>dt\<close>. The zone is a \<^verbatim>\<open>pytz\<close> zone with
  several offsets in its history, and its \<^verbatim>\<open>localize\<close> starts by computing
  \<^verbatim>\<open>dt - timedelta(days=1)\<close> and \<^verbatim>\<open>dt + timedelta(days=1)\<close>: on the first and on
  the last day of the calendar this raises \<^verbatim>\<open>OverflowError\<close>. Otherwise \<open>dt\<close> gets
  the offset in force at that local time: +05:30 from 1945-10-15 on, and before that one
  of the earlier offsets of the zone. Those are a table of the time zone database, which
  is not in the source: \<open>earlier\<close> stands for it, with the offset in minutes for a
  local time before 1945-10-15.
\<close>

definition on_first_day :: "'a date_scheme \<Rightarrow> bool" where
  "on_first_day d = (year d = 1 \<and> month d = 1 \<and> day d = 1)"

definition on_last_day :: "'a date_scheme \<Rightarrow> bool" where
  "on_last_day d = (year d = 9999 \<and> month d = 12 \<and> day d = 31)"

definition since_1945_10_15 :: "'a date_scheme \<Rightarrow> bool" where
  "since_1945_10_15 d =
     (1945 < year d \<or> (year d = 1945 \<and> (10 < month d \<or> (month d = 10 \<and> 15 \<le> day d))))"

definition localize :: "(datetime \<Rightarrow> int) \<Rightarrow> datetime \<Rightarrow> error + datetime" where
  "localize earlier dt =
     (if on_first_day dt \<or> on_last_day dt then Inl OverflowError
      else Inr (replace_tzinfo (Some (if since_1945_10_15 dt then 330 else earlier dt)) dt))"

section \<open>The task record and the task manager\<close>

text \<open>
  \<^verbatim>\<open>@dataclass class ScheduledTask\<close>. \<open>status\<close> is a plain string in the source,
  one of \<^verbatim>\<open>'pending', 'running', 'completed', 'failed', 'cancelled'\<close> by its comment;
  nothing in the class enforces it, so it is a string here too. The field
  \<^verbatim>\<open>notes\<close> is \<open>task_notes\<close> here.
\<close>

record ScheduledTask =
  user_id :: int
  task_id :: string
  webhook_url :: string
  task_notes :: string
  scheduled_time :: datetime
  status :: string
  created_at :: datetime
  results :: "pydict option"

text \<open>\<^verbatim>\<open>TaskManager.tasks: Dict[str, ScheduledTask]\<close>.\<close>

type_synonym task_store = "(string \<times> ScheduledTask) list"

text \<open>
  The operations of \<^verbatim>\<open>TaskManager\<close> on the in-memory dict. Each mutating
  operation of the source ends with \<^verbatim>\<open>self.save_tasks()\<close>, which rewrites the file
  from the dict and leaves the dict as it is; it is modelled on its own further down.
  An operation returns the new dict, with its return value where it has one.
\<close>

definition add_task :: "task_store \<Rightarrow> ScheduledTask \<Rightarrow> task_store \<times> string" where
  "add_task tasks task = (AList.update (task_id task) task tasks, task_id task)"

definition get_user_tasks :: "task_store \<Rightarrow> int \<Rightarrow> ScheduledTask list" where
  "get_user_tasks tasks uid = filter (\<lambda>task. user_id task = uid) (map snd tasks)"

definition get_pending_tasks :: "task_store \<Rightarrow> ScheduledTask list" where
  "get_pending_tasks tasks = filter (\<lambda>task. status task = ''pending'') (map snd tasks)"

definition update_task_status ::
  "task_store \<Rightarrow> string \<Rightarrow> string \<Rightarrow> pydict option \<Rightarrow> task_store" where
  "update_task_status tasks tid new_status res =
     (case map_of tasks tid of
        None \<Rightarrow> tasks
      | Some task \<Rightarrow>
          (let task1 = task\<lparr>status := new_status\<rparr>;
               task2 = (if truthy_results res then task1\<lparr>results := res\<rparr> else task1)
           in AList.update tid task2 tasks))"

definition cancel_task :: "task_store \<Rightarrow> string \<Rightarrow> task_store \<times> bool" where
  "cancel_task tasks tid =
     (case map_of tasks tid of
        None \<Rightarrow> (tasks, False)
      | Some task \<Rightarrow>
          (if status task = ''pending''
           then (AList.update tid (task\<lparr>status := ''cancelled''\<rparr>) tasks, True)
           else (tasks, False)))"

subsection \<open>Task intake: \<^verbatim>\<open>handle_notes_input\<close>\<close>

text \<open>
  \<^verbatim>\<open>int(time.time())\<close>: the clock is a real number of seconds, \<^verbatim>\<open>int\<close> cuts the
  fraction off towards zero.
\<close>

definition int_of_float :: "real \<Rightarrow> int" where
  "int_of_float t = (if 0 \<le> t then \<lfloor>t\<rfloor> else \<lceil>t\<rceil>)"

text \<open>\<^verbatim>\<open>task_id = f"task_{user_id}_{int(time.time())}"\<close>\<close>

definition make_task_id :: "int \<Rightarrow> real \<Rightarrow> string" where
  "make_task_id uid t = ''task_'' @ str_int uid @ ''_'' @ str_int (int_of_float t)"

text \<open>
  The part of \<^verbatim>\<open>handle_notes_input\<close> that builds the task and stores it. \<open>uid\<close>
  is the sender, \<open>url\<close> and \<open>sched\<close> are what the two earlier steps of the dialogue
  left in the user's state, \<open>txt\<close> is the message (the notes), \<open>t\<close> is
  \<^verbatim>\<open>time.time()\<close> and \<open>now\<close> is \<^verbatim>\<open>datetime.now(IST)\<close>.
\<close>

definition new_task ::
  "int \<Rightarrow> string \<Rightarrow> datetime \<Rightarrow> string \<Rightarrow> real \<Rightarrow> datetime \<Rightarrow> ScheduledTask" where
  "new_task uid url sched txt t now =
     \<lparr>user_id = uid, task_id = make_task_id uid t, webhook_url = url, task_notes = txt,
      scheduled_time = sched, status = ''pending'', created_at = now, results = None\<rparr>"

definition handle_notes_input ::
  "task_store \<Rightarrow> int \<Rightarrow> string \<Rightarrow> datetime \<Rightarrow> string \<Rightarrow> real \<Rightarrow> datetime \<Rightarrow> task_store" where
  "handle_notes_input tasks uid url sched txt t now =
     fst (add_task tasks (new_task uid url sched txt t now))"

section \<open>Python strings\<close>

text \<open>
  A Python \<^verbatim>\<open>str\<close> is a sequence of code points; a \<open>string\<close> here is a list of
  8-bit characters, read as the code points below 256. On them the string methods and the
  character classes of \<^verbatim>\<open>re\<close> are as follows: the white space of \<^verbatim>\<open>str.strip\<close>,
  \<^verbatim>\<open>str.isspace\<close> and \<^verbatim>\<open>\s\<close> is 9..13, 28..32, 133 and 160; the digits of
  \<^verbatim>\<open>\d\<close> are \<open>0\<close>..\<open>9\<close>; \<^verbatim>\<open>str.lower\<close> moves A..Z and the capital letters
  192..222 (but 215, the multiplication sign) up by 32, and changes no length.
\<close>

definition whitespace :: "char list" where
  "whitespace =
     [CHR 0x09, CHR 0x0A, CHR 0x0B, CHR 0x0C, CHR 0x0D, CHR 0x1C, CHR 0x1D, CHR 0x1E,
      CHR 0x1F, CHR 0x20, CHR 0x85, CHR 0xA0]"

definition is_space :: "char \<Rightarrow> bool" where
  "is_space c = (c \<in> set whitespace)"

definition is_digit :: "char \<Rightarrow> bool" where
  "is_digit c = (c \<in> set ''0123456789'')"

definition upper_letters :: "char list" where
  "upper_letters = ''ABCDEFGHIJKLMNOPQRSTUVWXYZ'' @ [
      CHR 0xC0, CHR 0xC1, CHR 0xC2, CHR 0xC3, CHR 0xC4, CHR 0xC5, CHR 0xC6, CHR 0xC7,
      CHR 0xC8, CHR 0xC9, CHR 0xCA, CHR 0xCB, CHR 0xCC, CHR 0xCD, CHR 0xCE, CHR 0xCF,
      CHR 0xD0, CHR 0xD1, CHR 0xD2, CHR 0xD3, CHR 0xD4, CHR 0xD5, CHR 0xD6, CHR 0xD8,
      CHR 0xD9, CHR 0xDA, CHR 0xDB, CHR 0xDC, CHR 0xDD, CHR 0xDE]"

definition lower_letters :: "char list" where
  "lower_letters = ''abcdefghijklmnopqrstuvwxyz'' @ [
      CHR 0xE0, CHR 0xE1, CHR 0xE2, CHR 0xE3, CHR 0xE4, CHR 0xE5, CHR 0xE6, CHR 0xE7,
      CHR 0xE8, CHR 0xE9, CHR 0xEA, CHR 0xEB, CHR 0xEC, CHR 0xED, CHR 0xEE, CHR 0xEF,
      CHR 0xF0, CHR 0xF1, CHR 0xF2, CHR 0xF3, CHR 0xF4, CHR 0xF5, CHR 0xF6, CHR 0xF8,
      CHR 0xF9, CHR 0xFA, CHR 0xFB, CHR 0xFC, CHR 0xFD, CHR 0xFE]"

definition lower_char :: "char \<Rightarrow> char" where
  "lower_char c = (case map_of (zip upper_letters lower_letters) c of Some l \<Rightarrow> l | None \<Rightarrow> c)"

definition lower :: "string \<Rightarrow> string" where
  "lower s = map lower_char s"

definition strip :: "string \<Rightarrow> string" where
  "strip s = rev (dropWhile is_space (rev (dropWhile is_space s)))"

definition startswith :: "string \<Rightarrow> string \<Rightarrow> bool" where
  "startswith s p = (take (length p) s = p)"

definition endswith :: "string \<Rightarrow> string \<Rightarrow> bool" where
  "endswith s p = (length p \<le> length s \<and> drop (length s - length p) s = p)"

text \<open>
  \<^verbatim>\<open>s.find(sub)\<close>: the lowest index where \<open>sub\<close> starts in \<open>s\<close>; Python's \<open>-1\<close>
  is \<open>None\<close>. \<^verbatim>\<open>sub in s\<close> is \<open>contains\<close>.
\<close>

fun find_from :: "nat \<Rightarrow> string \<Rightarrow> string \<Rightarrow> nat option" where
  "find_from i [] sub = (if sub = [] then Some i else None)"
| "find_from i (c # s) sub =
     (if startswith (c # s) sub then Some i else find_from (Suc i) s sub)"

definition find :: "string \<Rightarrow> string \<Rightarrow> nat option" where
  "find s sub = find_from 0 s sub"

definition contains :: "string \<Rightarrow> string \<Rightarrow> bool" where
  "contains s sub = (find s sub \<noteq> None)"

text \<open>
  \<^verbatim>\<open>s.replace(old, new)\<close> for a non-empty \<open>old\<close>: every occurrence, from the left,
  none overlapping. The counter is the number of characters of a replaced occurrence
  still to be skipped.
\<close>

fun replace_from :: "nat \<Rightarrow> string \<Rightarrow> string \<Rightarrow> string \<Rightarrow> string" where
  "replace_from skip [] old new = []"
| "replace_from (Suc skip) (c # s) old new = replace_from skip s old new"
| "replace_from 0 (c # s) old new =
     (if old \<noteq> [] \<and> startswith (c # s) old
      then new @ replace_from (length old - 1) s old new
      else c # replace_from 0 s old new)"

definition replace :: "string \<Rightarrow> string \<Rightarrow> string \<Rightarrow> string" where
  "replace s old new = replace_from 0 s old new"

text \<open>\<^verbatim>\<open>sep.join(parts)\<close>\<close>

fun join :: "string \<Rightarrow> string list \<Rightarrow> string" where
  "join sep [] = []"
| "join sep [p] = p"
| "join sep (p # q # ps) = p @ sep @ join sep (q # ps)"

text \<open>\<^verbatim>\<open>s[a:b]\<close> for \<open>0 \<le> a \<le> b \<le> len(s)\<close>.\<close>

definition slice :: "string \<Rightarrow> nat \<Rightarrow> nat \<Rightarrow> string" where
  "slice s a b = take (b - a) (drop a s)"

section \<open>Regular expressions of the \<^verbatim>\<open>re\<close> module\<close>

text \<open>
  The patterns of the program use literals, the classes \<^verbatim>\<open>\d\<close>, \<^verbatim>\<open>\s\<close>, \<^verbatim>\<open>.\<close>
  and \<^verbatim>\<open>[:\s]\<close>, greedy repetition of a class or a character (\<^verbatim>\<open>*\<close>, \<^verbatim>\<open>+\<close>,
  \<^verbatim>\<open>?\<close>, \<^verbatim>\<open>{m}\<close>, \<^verbatim>\<open>{m,n}\<close>), sequence, alternation, an optional group and
  capturing groups. \<open>Rep c lo hi\<close> is \<open>c\<close> repeated \<open>lo\<close> to \<open>hi\<close> times
  (\<open>None\<close>: no upper bound), \<open>Group n r\<close> is the \<open>n\<close>-th capturing group.
\<close>

datatype cset =
    Ch char
  | Digit
  | Space
  | Dot
  | Or cset cset

datatype regex =
    Lit string
  | Rep cset nat "nat option"
  | Seq regex regex
  | Alt regex regex
  | Opt regex
  | Group nat regex

type_synonym captures = "(nat \<times> string) list"

text \<open>Equality of two characters, up to case under \<^verbatim>\<open>re.IGNORECASE\<close> (\<open>ic\<close>).\<close>

definition char_eq :: "bool \<Rightarrow> char \<Rightarrow> char \<Rightarrow> bool" where
  "char_eq ic a c = (if ic then lower_char a = lower_char c else a = c)"

text \<open>
  Whether a character is in a class. \<open>ic\<close> is the flag \<^verbatim>\<open>re.IGNORECASE\<close>: with it
  a letter of the pattern matches both of its cases. \<^verbatim>\<open>.\<close> is every character but
  the newline.
\<close>

fun cset_has :: "bool \<Rightarrow> cset \<Rightarrow> char \<Rightarrow> bool" where
  "cset_has ic (Ch a) c = char_eq ic a c"
| "cset_has ic Digit c = is_digit c"
| "cset_has ic Space c = is_space c"
| "cset_has ic Dot c = (c \<noteq> CHR 0x0A)"
| "cset_has ic (Or x y) c = (cset_has ic x c \<or> cset_has ic y c)"

text \<open>Whether the literal \<open>l\<close> stands at the start of the input.\<close>

fun lit_matches :: "bool \<Rightarrow> string \<Rightarrow> string \<Rightarrow> bool" where
  "lit_matches ic [] s = True"
| "lit_matches ic (a # l) [] = False"
| "lit_matches ic (a # l) (c # s) = (if char_eq ic a c then lit_matches ic l s else False)"

text \<open>
  A greedy repetition takes the longest run it may and gives characters back one at a
  time when the rest of the pattern fails: the inputs it can leave, the preferred first.
\<close>

definition rep_results :: "(char \<Rightarrow> bool) \<Rightarrow> nat \<Rightarrow> nat option \<Rightarrow> string \<Rightarrow> string list" where
  "rep_results p lo hi s =
     (let run = length (takeWhile p s);
          k = (case hi of None \<Rightarrow> run | Some h \<Rightarrow> min h run)
      in map (\<lambda>j. drop j s) (rev [lo ..< Suc k]))"

text \<open>
  The backtracking matcher: all the ways a pattern matches at the start of the input,
  each with the input left over and the groups captured, in the order in which
  backtracking tries them. The engine of \<^verbatim>\<open>re\<close> returns the first.
\<close>

fun rmatch :: "bool \<Rightarrow> regex \<Rightarrow> string \<times> captures \<Rightarrow> (string \<times> captures) list" where
  "rmatch ic (Lit l) (s, cs) = (if lit_matches ic l s then [(drop (length l) s, cs)] else [])"
| "rmatch ic (Rep c lo hi) (s, cs) = map (\<lambda>r. (r, cs)) (rep_results (cset_has ic c) lo hi s)"
| "rmatch ic (Seq a b) st = concat (map (rmatch ic b) (rmatch ic a st))"
| "rmatch ic (Alt a b) st = rmatch ic a st @ rmatch ic b st"
| "rmatch ic (Opt a) st = rmatch ic a st @ [st]"
| "rmatch ic (Group n a) (s, cs) =
     map (\<lambda>(r, cs'). (r, (n, take (length s - length r) s) # cs')) (rmatch ic a (s, cs))"

text \<open>\<^verbatim>\<open>re.match(pattern, s)\<close>: the captures of the first match at the start of \<open>s\<close>.\<close>

definition re_match :: "bool \<Rightarrow> regex \<Rightarrow> string \<Rightarrow> captures option" where
  "re_match ic r s = (case rmatch ic r (s, []) of [] \<Rightarrow> None | (rest, cs) # others \<Rightarrow> Some cs)"

text \<open>\<^verbatim>\<open>re.search(pattern, s)\<close>: the first match at the leftmost position that has one.\<close>

fun re_search :: "bool \<Rightarrow> regex \<Rightarrow> string \<Rightarrow> captures option" where
  "re_search ic r [] = re_match ic r []"
| "re_search ic r (c # s) =
     (case re_match ic r (c # s) of Some cs \<Rightarrow> Some cs | None \<Rightarrow> re_search ic r s)"

text \<open>
  \<^verbatim>\<open>match.group(n)\<close>. Every group of the program's patterns stands outside the
  optional parts, so a match has captured it; a group that took no part would give
  \<open>None\<close> in Python and gives the empty string here.
\<close>

definition group :: "captures \<Rightarrow> nat \<Rightarrow> string" where
  "group cs n = (case map_of cs n of Some g \<Rightarrow> g | None \<Rightarrow> [])"

text \<open>A sequence of several parts.\<close>

fun seqs :: "regex list \<Rightarrow> regex" where
  "seqs [] = Lit []"
| "seqs [r] = r"
| "seqs (r # rs) = Seq r (seqs rs)"

text \<open>\<^verbatim>\<open>\d+(?:\.\d+)?\<close>, the number of the metric patterns.\<close>

definition number :: regex where
  "number = Seq (Rep Digit 1 None) (Opt (Seq (Lit ''.'') (Rep Digit 1 None)))"

text \<open>\<^verbatim>\<open>[:\s]*\<close>\<close>

definition colon_spaces :: regex where
  "colon_spaces = Rep (Or (Ch CHR '':'') Space) 0 None"

section \<open>The result classifier: \<^verbatim>\<open>extract_submission_details\<close>\<close>

text \<open>
  The dict the function returns, with its keys as fields (the key \<^verbatim>\<open>"status"\<close> is
  the field \<open>found_status\<close>, after the variable that holds it). \<open>metrics\<close> is the
  dict from metric name to the text extracted for it.
\<close>

record classification =
  found_status :: string
  has_results :: bool
  is_processing :: bool
  has_error :: bool
  details :: string
  metrics :: "(string \<times> string) list"

text \<open>An alternation of literals, \<^verbatim>\<open>(?:a|b|c)\<close>.\<close>

fun alts :: "string list \<Rightarrow> regex" where
  "alts [] = Lit []"
| "alts [l] = Lit l"
| "alts (l # ls) = Alt (Lit l) (alts ls)"

text \<open>
  \<^verbatim>\<open>status_patterns\<close>, in the order the dict is written. Each pattern of the source
  has one more alternative, a pictograph (a check mark, an hourglass, a cross), which is
  a code point above 255 and so occurs in no text of this model.
\<close>

definition status_patterns :: "(string \<times> regex) list" where
  "status_patterns =
     [(''completed'', alts [''completed'', ''success'']),
      (''processing'', alts [''processing'', ''evaluating'', ''pending'']),
      (''failed'', alts [''failed'', ''error'', ''timeout'']),
      (''submitted'', alts [''submitted'', ''received''])]"

fun detect_status :: "(string \<times> regex) list \<Rightarrow> string \<Rightarrow> string" where
  "detect_status [] ctx = ''unknown''"
| "detect_status ((status_name, pattern) # ps) ctx =
     (if re_search True pattern ctx \<noteq> None then status_name else detect_status ps ctx)"

text \<open>The pattern lists of the metrics, each in its order in the source.\<close>

definition score_patterns :: "regex list" where
  "score_patterns =
     [seqs [Lit ''Overall'', Rep Space 1 None, Lit ''Score'', colon_spaces, Group 1 number],
      seqs [Lit ''Score'', colon_spaces, Group 1 number],
      seqs [Lit ''overall'', colon_spaces, Group 1 number],
      seqs [Group 1 number, Rep Space 0 None,
            Alt (Seq (Lit ''point'') (Rep (Ch CHR ''s'') 0 (Some 1)))
                (Seq (Lit ''pt'') (Rep (Ch CHR ''s'') 0 (Some 1)))]]"

text \<open>\<^verbatim>\<open>(\d+(?:\.\d+)?%?)\<close>\<close>

definition percent_group :: regex where
  "percent_group = Group 1 (Seq number (Rep (Ch CHR ''%'') 0 (Some 1)))"

definition accuracy_patterns :: "regex list" where
  "accuracy_patterns =
     [seqs [Lit ''Accuracy'', colon_spaces, percent_group],
      seqs [Lit ''accuracy'', colon_spaces, percent_group],
      seqs [Group 1 number, Lit ''%'', Rep Space 0 None, alts [''accuracy'', ''acc'']],
      seqs [Lit ''correct'', colon_spaces, percent_group]]"

definition response_patterns :: "regex list" where
  "response_patterns =
     [seqs [Lit ''Avg'', Rep Space 1 None, Lit ''Response'', colon_spaces, Group 1 number,
            Rep Space 0 None, Lit ''ms''],
      seqs [Lit ''Average'', Rep Space 1 None, Lit ''Response'', colon_spaces, Group 1 number,
            Rep Space 0 None, Lit ''ms''],
      seqs [Lit ''Response'', Rep Space 1 None, Lit ''Time'', colon_spaces, Group 1 number,
            Rep Space 0 None, Lit ''ms''],
      seqs [Group 1 number, Rep Space 0 None, Lit ''ms'', Rep Space 0 None,
            alts [''response'', ''avg'']],
      seqs [Lit ''latency'', colon_spaces, Group 1 number, Rep Space 0 None, Lit ''ms'']]"

definition position_patterns :: "regex list" where
  "position_patterns =
     [seqs [Lit ''Position'', colon_spaces, Rep (Ch CHR ''#'') 0 (Some 1),
            Group 1 (Rep Digit 1 None)],
      seqs [Lit ''Rank'', colon_spaces, Rep (Ch CHR ''#'') 0 (Some 1),
            Group 1 (Rep Digit 1 None)],
      seqs [Lit ''#'', Group 1 (Rep Digit 1 None), Rep Space 0 None,
            alts [''position'', ''rank'']],
      seqs [Lit ''place'', colon_spaces, Group 1 (Rep Digit 1 None)]]"

definition additional_patterns :: "(string \<times> regex list) list" where
  "additional_patterns =
     [(''f1_score'', [seqs [Lit ''F1'', colon_spaces, Group 1 number],
                      seqs [Lit ''F1-Score'', colon_spaces, Group 1 number]]),
      (''precision'', [seqs [Lit ''Precision'', colon_spaces, percent_group]]),
      (''recall'', [seqs [Lit ''Recall'', colon_spaces, percent_group]]),
      (''throughput'', [seqs [Lit ''Throughput'', colon_spaces, Group 1 number],
                        seqs [Lit ''RPS'', colon_spaces, Group 1 number]])]"

text \<open>
  \<^verbatim>\<open>for pattern in patterns: match = re.search(pattern, context, re.IGNORECASE);
  if match: ... match.group(1) ...; break\<close>: group 1 of the first pattern that is found.
\<close>

fun first_match :: "regex list \<Rightarrow> string \<Rightarrow> string option" where
  "first_match [] ctx = None"
| "first_match (pattern # ps) ctx =
     (case re_search True pattern ctx of
        Some cs \<Rightarrow> Some (group cs 1)
      | None \<Rightarrow> first_match ps ctx)"

text \<open>\<^verbatim>\<open>metrics[key] = v\<close> when a pattern of the list matched, with \<open>f\<close> the
  change the source makes to the captured text.\<close>

definition set_metric ::
  "string \<Rightarrow> regex list \<Rightarrow> (string \<Rightarrow> string) \<Rightarrow> string \<Rightarrow> (string \<times> string) list
     \<Rightarrow> (string \<times> string) list" where
  "set_metric key patterns f ctx m =
     (case first_match patterns ctx of
        Some g \<Rightarrow> AList.update key (f g) m
      | None \<Rightarrow> m)"

text \<open>
  \<^verbatim>\<open>for metric_name, patterns in additional_patterns.items(): ...
  metrics[metric_name] = match.group(1)\<close>: the captured text as it is.
\<close>

fun set_additional ::
  "(string \<times> regex list) list \<Rightarrow> string \<Rightarrow> (string \<times> string) list \<Rightarrow> (string \<times> string) list" where
  "set_additional [] ctx m = m"
| "set_additional ((metric_name, patterns) # rest) ctx m =
     set_additional rest ctx (set_metric metric_name patterns (\<lambda>g. g) ctx m)"

text \<open>\<^verbatim>\<open>if not accuracy_val.endswith('%'): accuracy_val += '%'\<close>\<close>

definition add_percent :: "string \<Rightarrow> string" where
  "add_percent accuracy_val =
     (if \<not> endswith accuracy_val ''%'' then accuracy_val @ ''%'' else accuracy_val)"

definition extract_metrics :: "string \<Rightarrow> (string \<times> string) list" where
  "extract_metrics ctx =
     set_additional additional_patterns ctx
       (set_metric ''position'' position_patterns (\<lambda>g. ''#'' @ g) ctx
         (set_metric ''avg_response'' response_patterns (\<lambda>g. g @ ''ms'') ctx
           (set_metric ''accuracy'' accuracy_patterns add_percent ctx
             (set_metric ''overall_score'' score_patterns (\<lambda>g. g) ctx []))))"

definition error_keywords :: "string list" where
  "error_keywords = [''error'', ''failed'', ''timeout'', ''invalid'', ''rejected'']"

text \<open>\<^verbatim>\<open>key in metrics\<close>\<close>

definition has_key :: "(string \<times> string) list \<Rightarrow> string \<Rightarrow> bool" where
  "has_key m key = (map_of m key \<noteq> None)"

text \<open>
  \<^verbatim>\<open>details_parts\<close>: one part for each of the four metrics that is present (the
  lookup \<^verbatim>\<open>metrics[key]\<close> is made only under \<^verbatim>\<open>key in metrics\<close>).
\<close>

definition details_part :: "(string \<times> string) list \<Rightarrow> string \<Rightarrow> string \<Rightarrow> string list" where
  "details_part m key label =
     (case map_of m key of Some v \<Rightarrow> [label @ '': '' @ v] | None \<Rightarrow> [])"

text \<open>
  The function, in the two parts of its body: the window of the page around the place
  where the notes were found (\<^verbatim>\<open>context\<close>), and what is read from that window.
\<close>

definition context_window :: "string \<Rightarrow> nat \<Rightarrow> string" where
  "context_window page_text notes_pos =
     (let window_start = notes_pos - 2000;
          window_end = min (length page_text) (notes_pos + 2000)
      in slice page_text window_start window_end)"

definition classify_context :: "string \<Rightarrow> classification" where
  "classify_context ctx =
     (let status_found = detect_status status_patterns ctx;
          m = extract_metrics ctx;
          results_found =
            (0 < length m \<and>
             list_ex (has_key m) [''overall_score'', ''accuracy'', ''avg_response'']);
          error_found =
            (list_ex (\<lambda>keyword. contains (lower ctx) keyword) error_keywords
             \<or> status_found = ''failed'');
          processing =
            ((status_found = ''processing'' \<or> status_found = ''submitted'')
             \<and> \<not> results_found \<and> \<not> error_found);
          details_text =
            (if results_found
             then ''Status: '' @ status_found @ '', '' @
                  join '', ''
                    (details_part m ''overall_score'' ''Score'' @
                     details_part m ''accuracy'' ''Accuracy'' @
                     details_part m ''avg_response'' ''Response'' @
                     details_part m ''position'' ''Position'')
             else ''Status: '' @ status_found @ '', No metrics found'')
      in \<lparr>found_status = status_found, has_results = results_found,
          is_processing = processing, has_error = error_found,
          details = details_text, metrics = m\<rparr>)"

definition extract_submission_details :: "string \<Rightarrow> string \<Rightarrow> classification" where
  "extract_submission_details page_text target_notes =
     (case find (lower page_text) (lower target_notes) of
        None \<Rightarrow>
          \<lparr>found_status = ''unknown'', has_results = False, is_processing = False,
           has_error = False, details = ''Submission not found on page'', metrics = []\<rparr>
      | Some notes_pos \<Rightarrow> classify_context (context_window page_text notes_pos))"

section \<open>Monitoring: \<^verbatim>\<open>monitor_results_with_cooldown_detection\<close>\<close>

text \<open>
  Each check loads the submissions page inside a \<^verbatim>\<open>try\<close>: it gets the page source,
  or an exception is raised (by the driver or by the wait) that the handler logs. What
  the site serves is outside the program: \<open>loads k\<close> is what the \<open>k\<close>-th load of
  the run gives. The notifications sent and the sleeps between checks are not part of
  the model; the dict the function returns is.
\<close>

datatype fetch = Page string | Raised

definition max_initial_checks :: nat where
  "max_initial_checks = 2"

definition max_result_checks :: nat where
  "max_result_checks = 6000"

text \<open>
  Phase 1, \<^verbatim>\<open>for initial_check in range(max_initial_checks)\<close>, from check \<open>i\<close> with
  \<open>n\<close> checks to go: the number of the check that found the notes on the page
  (\<^verbatim>\<open>submission_found = True; break\<close>), or \<open>None\<close> when the range is used up.
\<close>

fun initial_checks :: "string \<Rightarrow> (nat \<Rightarrow> fetch) \<Rightarrow> nat \<Rightarrow> nat \<Rightarrow> nat option" where
  "initial_checks target_notes loads i 0 = None"
| "initial_checks target_notes loads i (Suc n) =
     (case loads i of
        Page page_text \<Rightarrow>
          (if contains (lower page_text) (lower target_notes) then Some i
           else initial_checks target_notes loads (Suc i) n)
      | Raised \<Rightarrow> initial_checks target_notes loads (Suc i) n)"

text \<open>The dict of \<^verbatim>\<open>extract_submission_details\<close> as a value.\<close>

definition details_dict :: "classification \<Rightarrow> pydict" where
  "details_dict d =
     [(''status'', PStr (found_status d)),
      (''has_results'', PBool (has_results d)),
      (''is_processing'', PBool (is_processing d)),
      (''has_error'', PBool (has_error d)),
      (''details'', PStr (details d)),
      (''metrics'', PDict (map (\<lambda>(k, v). (k, PStr v)) (metrics d)))]"

text \<open>
  Phase 2, \<^verbatim>\<open>for result_check in range(max_result_checks)\<close>, with \<open>n\<close> checks to go
  and \<open>k\<close> the number of page loads made so far. In the branch for
  \<^verbatim>\<open>details["has_results"]\<close> the source calls
  \<^verbatim>\<open>self.format_detailed_success_message(task, details)\<close> before it returns;
  \<^verbatim>\<open>self\<close> is the \<^verbatim>\<open>HackRxBot\<close>, which has no such method (it is a method of the
  scraper class in \<^verbatim>\<open>test.py\<close>), so the call raises \<^verbatim>\<open>AttributeError\<close> inside the
  \<^verbatim>\<open>try\<close>, the handler logs it, and the loop goes on to the next check.
\<close>

fun result_checks :: "string \<Rightarrow> (nat \<Rightarrow> fetch) \<Rightarrow> nat \<Rightarrow> nat \<Rightarrow> pydict" where
  "result_checks target_notes loads k 0 =
     [(''found'', PBool True), (''has_results'', PBool False), (''timeout'', PBool True)]"
| "result_checks target_notes loads k (Suc n) =
     (case loads k of
        Raised \<Rightarrow> result_checks target_notes loads (Suc k) n
      | Page page_text \<Rightarrow>
          (let d = extract_submission_details page_text target_notes
           in if has_results d then result_checks target_notes loads (Suc k) n
              else if has_error d
              then [(''found'', PBool True), (''has_results'', PBool False),
                    (''has_error'', PBool True), (''details'', PDict (details_dict d))]
              else result_checks target_notes loads (Suc k) n))"

definition cooldown_result :: pydict where
  "cooldown_result =
     [(''found'', PBool False), (''cooldown'', PBool True),
      (''message'', PStr ''Submission in cooldown mode'')]"

definition monitor_results_with_cooldown_detection ::
  "string \<Rightarrow> (nat \<Rightarrow> fetch) \<Rightarrow> pydict" where
  "monitor_results_with_cooldown_detection target_notes loads =
     (case initial_checks target_notes loads 0 max_initial_checks of
        None \<Rightarrow> cooldown_result
      | Some i \<Rightarrow> result_checks target_notes loads (Suc i) max_result_checks)"

text \<open>Whether a load shows the notes: a page was served and holds them, in any case of letters.\<close>

fun shows_notes :: "string \<Rightarrow> fetch \<Rightarrow> bool" where
  "shows_notes target_notes (Page page_text) = contains (lower page_text) (lower target_notes)"
| "shows_notes target_notes Raised = False"

section \<open>The time parser: \<^verbatim>\<open>parse_time_input\<close>\<close>

text \<open>\<^verbatim>\<open>int(s)\<close> for a string of digits.\<close>

definition digit_value :: "char \<Rightarrow> nat" where
  "digit_value c = length (takeWhile (\<lambda>d. d \<noteq> c) ''0123456789'')"

definition int_of_digits :: "string \<Rightarrow> nat" where
  "int_of_digits s = foldl (\<lambda>acc c. 10 * acc + digit_value c) 0 s"

text \<open>
  The three patterns, matched with \<^verbatim>\<open>re.match\<close> and without flags:
  \<^verbatim>\<open>(\d{4}-\d{1,2}-\d{1,2})\s+(.+)\<close>, \<^verbatim>\<open>(\d{1,2}):(\d{2})\s*(am|pm)\<close> and
  \<^verbatim>\<open>(\d{1,2}):(\d{2})\<close>.
\<close>

definition date_pattern :: regex where
  "date_pattern =
     seqs [Group 1 (seqs [Rep Digit 4 (Some 4), Lit ''-'', Rep Digit 1 (Some 2), Lit ''-'',
                          Rep Digit 1 (Some 2)]),
           Rep Space 1 None, Group 2 (Rep Dot 1 None)]"

definition pattern_12hour :: regex where
  "pattern_12hour =
     seqs [Group 1 (Rep Digit 1 (Some 2)), Lit '':'', Group 2 (Rep Digit 2 (Some 2)),
           Rep Space 0 None, Group 3 (Alt (Lit ''am'') (Lit ''pm''))]"

definition pattern_24hour :: regex where
  "pattern_24hour =
     seqs [Group 1 (Rep Digit 1 (Some 2)), Lit '':'', Group 2 (Rep Digit 2 (Some 2))]"

text \<open>
  \<^verbatim>\<open>datetime.min.time().replace(hour=hour, minute=minute)\<close>: midnight with the two
  fields replaced, \<^verbatim>\<open>ValueError\<close> when one is out of its range.
\<close>

definition time_replace :: "nat \<Rightarrow> nat \<Rightarrow> error + time_of_day" where
  "time_replace h m =
     (if 23 < h then Inl (ValueError HourOutOfRange)
      else if 59 < m then Inl (ValueError MinuteOutOfRange)
      else Inr \<lparr>hour = h, minute = m, second = 0, microsecond = 0\<rparr>)"

text \<open>\<^verbatim>\<open>_parse_12hour\<close> and \<^verbatim>\<open>_parse_24hour\<close>, on the groups of the match.\<close>

definition adjust_12hour :: "nat \<Rightarrow> string \<Rightarrow> nat" where
  "adjust_12hour h ampm =
     (if ampm = ''pm'' \<and> h \<noteq> 12 then h + 12
      else if ampm = ''am'' \<and> h = 12 then 0
      else h)"

definition parse_12hour :: "captures \<Rightarrow> error + time_of_day" where
  "parse_12hour cs =
     time_replace (adjust_12hour (int_of_digits (group cs 1)) (group cs 3))
       (int_of_digits (group cs 2))"

definition parse_24hour :: "captures \<Rightarrow> error + time_of_day" where
  "parse_24hour cs = time_replace (int_of_digits (group cs 1)) (int_of_digits (group cs 2))"

text \<open>
  The loop over \<^verbatim>\<open>time_patterns\<close>: the parser of the first pattern that matches is
  called (an exception it raises leaves the function), and when no pattern matches,
  \<^verbatim>\<open>raise ValueError("Could not parse time format")\<close>. A \<^verbatim>\<open>time\<close> object is always
  true, so \<^verbatim>\<open>if not target_time\<close> holds only when nothing matched.
\<close>

definition parse_time_token :: "string \<Rightarrow> error + time_of_day" where
  "parse_time_token txt =
     (case re_match False pattern_12hour txt of
        Some cs \<Rightarrow> parse_12hour cs
      | None \<Rightarrow>
          (case re_match False pattern_24hour txt of
             Some cs \<Rightarrow> parse_24hour cs
           | None \<Rightarrow> Inl (ValueError CouldNotParseTimeFormat)))"

text \<open>
  \<^verbatim>\<open>datetime.strptime(date_str, '%Y-%m-%d').date()\<close> on a string of the shape that
  group 1 of the date pattern captures: the month must be 1..12 and the day 1..31 for the
  format to match, and the year at least 1 and the day within the month for the date to
  exist; every failure is a \<^verbatim>\<open>ValueError\<close>.
\<close>

fun split_on :: "char \<Rightarrow> string \<Rightarrow> string list" where
  "split_on sep [] = [[]]"
| "split_on sep (c # s) =
     (if c = sep then [] # split_on sep s
      else (case split_on sep s of [] \<Rightarrow> [[c]] | w # ws \<Rightarrow> (c # w) # ws))"

definition digits_between :: "nat \<Rightarrow> nat \<Rightarrow> string \<Rightarrow> bool" where
  "digits_between lo hi s = (lo \<le> length s \<and> length s \<le> hi \<and> list_all is_digit s)"

definition strptime_date :: "string \<Rightarrow> error + date" where
  "strptime_date date_str =
     (case split_on CHR ''-'' date_str of
        [ys, ms, ds] \<Rightarrow>
          (let d = \<lparr>year = int_of_digits ys, month = int_of_digits ms, day = int_of_digits ds\<rparr>
           in if digits_between 4 4 ys \<and> digits_between 1 2 ms \<and> digits_between 1 2 ds
                 \<and> valid_date d
              then Inr d else Inl (ValueError NotADate))
      | _ \<Rightarrow> Inl (ValueError NotADate))"

text \<open>
  The block \<^verbatim>\<open># Handle "tomorrow" prefix\<close>, on the stripped and lowered text: the
  target date and the text that is left. \<open>now\<close> is \<^verbatim>\<open>datetime.now(IST)\<close>.
\<close>

definition tomorrow_prefix :: "datetime \<Rightarrow> string \<Rightarrow> error + (date \<times> string)" where
  "tomorrow_prefix now txt =
     (if startswith txt ''tomorrow''
      then and_then (add_one_day now)
             (\<lambda>next_day. Inr (date_of next_day, strip (replace txt ''tomorrow'' [])))
      else Inr (date_of now, txt))"

text \<open>
  The block \<^verbatim>\<open># Handle explicit date\<close>: the target date, the text that is left for
  the time, and whether an explicit date was found (\<^verbatim>\<open>date_match\<close> is not \<open>None\<close>).
\<close>

definition explicit_date :: "date \<Rightarrow> string \<Rightarrow> error + (date \<times> string \<times> bool)" where
  "explicit_date target_date txt =
     (case re_match False date_pattern txt of
        None \<Rightarrow> Inr (target_date, txt, False)
      | Some cs \<Rightarrow>
          and_then (strptime_date (group cs 1)) (\<lambda>d. Inr (d, group cs 2, True)))"

text \<open>
  The rest of the function, after the time was parsed: combine, localize, move a past
  time of today to tomorrow, and refuse what is still not in the future. \<open>txt\<close> is the
  text as it is at that point (the source tests \<^verbatim>\<open>text.startswith('tomorrow')\<close> on
  it). Adding a day to an aware datetime moves its date and keeps its \<open>tzinfo\<close>.
\<close>

definition roll_forward :: "datetime \<Rightarrow> datetime \<Rightarrow> bool \<Rightarrow> string \<Rightarrow> error + datetime" where
  "roll_forward now scheduled_dt explicit txt =
     (if dt_le scheduled_dt now \<and> \<not> explicit \<and> \<not> startswith txt ''tomorrow''
      then add_one_day scheduled_dt
      else Inr scheduled_dt)"

definition schedule ::
  "(datetime \<Rightarrow> int) \<Rightarrow> datetime \<Rightarrow> date \<Rightarrow> time_of_day \<Rightarrow> bool \<Rightarrow> string
     \<Rightarrow> error + datetime" where
  "schedule earlier now target_date target_time explicit txt =
     and_then (localize earlier (combine target_date target_time))
       (\<lambda>scheduled_dt.
          and_then (roll_forward now scheduled_dt explicit txt)
            (\<lambda>scheduled_dt.
               if dt_le scheduled_dt now then Inl (ValueError MustBeInTheFuture)
               else Inr scheduled_dt))"

text \<open>
  The function. \<open>now\<close> is \<^verbatim>\<open>datetime.now(IST)\<close>, \<open>earlier\<close> the table of the
  zone's offsets before 1945-10-15.
\<close>

definition parse_time_input :: "(datetime \<Rightarrow> int) \<Rightarrow> datetime \<Rightarrow> string \<Rightarrow> error + datetime" where
  "parse_time_input earlier now txt0 =
     and_then (tomorrow_prefix now (lower (strip txt0)))
       (\<lambda>(target_date, txt).
          and_then (explicit_date target_date txt)
            (\<lambda>(target_date, txt, explicit).
               and_then (parse_time_token txt)
                 (\<lambda>target_time. schedule earlier now target_date target_time explicit txt)))"

section \<open>The dispatcher and the workers\<close>

text \<open>
  \<^verbatim>\<open>check_and_run_tasks\<close>: the pending tasks are listed once, and each of them that is
  due (\<^verbatim>\<open>task.scheduled_time <= now\<close>) is set to \<open>'running'\<close> and handed to a new
  worker thread. The result is the store and the ids of the tasks handed to workers, in
  the order in which the threads are started. \<open>now\<close> is \<^verbatim>\<open>datetime.now(IST)\<close>.
\<close>

fun run_due :: "datetime \<Rightarrow> ScheduledTask list \<Rightarrow> task_store \<Rightarrow> task_store \<times> string list" where
  "run_due now [] tasks = (tasks, [])"
| "run_due now (task # pending_tasks) tasks =
     (if dt_le (scheduled_time task) now
      then (case run_due now pending_tasks
                   (update_task_status tasks (task_id task) ''running'' None) of
              (tasks', started) \<Rightarrow> (tasks', task_id task # started))
      else run_due now pending_tasks tasks)"

definition check_and_run_tasks :: "datetime \<Rightarrow> task_store \<Rightarrow> task_store \<times> string list" where
  "check_and_run_tasks now tasks = run_due now (get_pending_tasks tasks) tasks"

text \<open>
  \<^verbatim>\<open>run_hackrx_task\<close>, the body of a worker. What the submission and the monitoring
  do lies outside the store: \<^verbatim>\<open>execute_hackrx_submission\<close> returns a dict, or an
  exception leaves the \<^verbatim>\<open>try\<close> (with its text, \<^verbatim>\<open>str(e)\<close>). The lookup
  \<^verbatim>\<open>results['success']\<close> raises \<^verbatim>\<open>KeyError\<close> inside the same \<^verbatim>\<open>try\<close> when the key
  is missing.
\<close>

datatype outcome = Returned pydict | Failed_with string

definition error_results :: "string \<Rightarrow> pydict" where
  "error_results msg = [(''success'', PBool False), (''error'', PStr msg)]"

definition run_hackrx_task :: "task_store \<Rightarrow> string \<Rightarrow> outcome \<Rightarrow> task_store" where
  "run_hackrx_task tasks tid out =
     (case out of
        Returned res \<Rightarrow>
          (case map_of res ''success'' of
             Some v \<Rightarrow>
               (if truthy v then update_task_status tasks tid ''completed'' (Some res)
                else update_task_status tasks tid ''failed'' (Some res))
           | None \<Rightarrow>
               update_task_status tasks tid ''failed'' (Some (error_results (CHR 0x27 # ''success'' @ [CHR 0x27]))))
      | Failed_with msg \<Rightarrow> update_task_status tasks tid ''failed'' (Some (error_results msg)))"

subsection \<open>The program as a sequence of operations\<close>

text \<open>
  The state of the program, as far as the tasks go: the store, and the ids handed to
  worker threads that have not yet written their final status. The operations on it are
  the creation of a task by intake, a scan of the dispatcher, the end of a worker and a
  cancellation. Each is one step here: the threads of the source are taken to run their
  store operations one at a time, and a scan as a whole.
\<close>

record system =
  store :: task_store
  in_flight :: "string list"

datatype event =
    Create int string datetime string real datetime
  | Scan datetime
  | Finish string outcome
  | Cancel string

fun step :: "event \<Rightarrow> system \<Rightarrow> system" where
  "step (Create uid url sched txt t now) s =
     s\<lparr>store := handle_notes_input (store s) uid url sched txt t now\<rparr>"
| "step (Scan now) s =
     (case check_and_run_tasks now (store s) of
        (tasks', started) \<Rightarrow> s\<lparr>store := tasks', in_flight := in_flight s @ started\<rparr>)"
| "step (Finish tid out) s =
     (if tid \<in> set (in_flight s)
      then s\<lparr>store := run_hackrx_task (store s) tid out, in_flight := remove1 tid (in_flight s)\<rparr>
      else s)"
| "step (Cancel tid) s = s\<lparr>store := fst (cancel_task (store s) tid)\<rparr>"

text \<open>The states a sequence of operations goes through, the first one included.\<close>

fun run :: "system \<Rightarrow> event list \<Rightarrow> system list" where
  "run s [] = [s]"
| "run s (e # es) = s # run (step e s) es"

definition initial :: system where
  "initial = \<lparr>store = [], in_flight = []\<rparr>"

text \<open>
  The status of the task stored under an id, and the sequence of status values the id
  takes along a run: the values in the states where the id is stored, a value that stays
  counted once.
\<close>

definition status_in :: "task_store \<Rightarrow> string \<Rightarrow> string option" where
  "status_in tasks tid = map_option status (map_of tasks tid)"

definition status_of :: "system \<Rightarrow> string \<Rightarrow> string option" where
  "status_of s tid = status_in (store s) tid"

definition status_history :: "string \<Rightarrow> system \<Rightarrow> event list \<Rightarrow> string list" where
  "status_history tid s es = remdups_adj (List.map_filter (\<lambda>s'. status_of s' tid) (run s es))"

text \<open>
  A creation is fresh when the store does not hold the id it makes; a sequence of
  operations has fresh ids when each of its creations is fresh in the state it meets.
\<close>

fun fresh_event :: "event \<Rightarrow> system \<Rightarrow> bool" where
  "fresh_event (Create uid url sched txt t now) s = (map_of (store s) (make_task_id uid t) = None)"
| "fresh_event (Scan now) s = True"
| "fresh_event (Finish tid out) s = True"
| "fresh_event (Cancel tid) s = True"

fun fresh_ids :: "system \<Rightarrow> event list \<Rightarrow> bool" where
  "fresh_ids s [] = True"
| "fresh_ids s (e # es) = (fresh_event e s \<and> fresh_ids (step e s) es)"

text \<open>The three sequences of the task life cycle.\<close>

definition life_cycles :: "string list list" where
  "life_cycles =
     [[''pending'', ''running'', ''completed''],
      [''pending'', ''running'', ''failed''],
      [''pending'', ''cancelled'']]"

text \<open>One step of the life cycle, on the status under an id before and after an operation.\<close>

definition life_cycle_step :: "string option \<Rightarrow> string option \<Rightarrow> bool" where
  "life_cycle_step a b =
     (a = b
      \<or> (a = None \<and> b = Some ''pending'')
      \<or> (a = Some ''pending'' \<and> b = Some ''running'')
      \<or> (a = Some ''pending'' \<and> b = Some ''cancelled'')
      \<or> (a = Some ''running'' \<and> b = Some ''completed'')
      \<or> (a = Some ''running'' \<and> b = Some ''failed''))"

text \<open>
  The tasks of a store are filed under their own ids, one each: this is how
  \<^verbatim>\<open>add_task\<close> files them, and no operation changes a key or an id.
\<close>

definition filed :: "task_store \<Rightarrow> bool" where
  "filed tasks = (distinct (map fst tasks) \<and> list_all (\<lambda>(k, task). task_id task = k) tasks)"

text \<open>
  What holds of every state the program reaches: the store is filed, and each id in
  flight is there once and its task is running.
\<close>

definition well_formed :: "system \<Rightarrow> bool" where
  "well_formed s =
     (filed (store s) \<and> distinct (in_flight s)
      \<and> list_all (\<lambda>tid. status_of s tid = Some ''running'') (in_flight s))"

text \<open>The sequences of status values that can begin at a status.\<close>

definition continuations :: "string option \<Rightarrow> string list list" where
  "continuations a =
     (case a of
        None \<Rightarrow>
          [[], [''pending''], [''pending'', ''running''],
           [''pending'', ''running'', ''completed''], [''pending'', ''running'', ''failed''],
           [''pending'', ''cancelled'']]
      | Some st \<Rightarrow>
          (if st = ''pending''
           then [[''pending''], [''pending'', ''running''],
                 [''pending'', ''running'', ''completed''],
                 [''pending'', ''running'', ''failed''], [''pending'', ''cancelled'']]
           else if st = ''running''
           then [[''running''], [''running'', ''completed''], [''running'', ''failed'']]
           else [[st]]))"

section \<open>Concrete values for the examples\<close>

definition example_time :: datetime where
  "example_time =
     \<lparr>year = 2024, month = 1, day = 15,
      tod = \<lparr>hour = 14, minute = 0, second = 0, microsecond = 0\<rparr>, tzinfo = IST\<rparr>"

definition example_task :: "string \<Rightarrow> string \<Rightarrow> ScheduledTask" where
  "example_task tid st =
     \<lparr>user_id = 7, task_id = tid, webhook_url = ''https://example.org/hook'',
      task_notes = ''run 1'', scheduled_time = example_time, status = st,
      created_at = example_time, results = None\<rparr>"

text \<open>
  A table of earlier offsets for the examples, which all lie after 1945: the one offset
  +05:53 for every local time.
\<close>

definition example_earlier :: "datetime \<Rightarrow> int" where
  "example_earlier dt = 353"

section \<open>Evaluating the string functions\<close>

text \<open>
  \<open>lower_char\<close> on the bits of a character, for evaluation: the capital letters are
  the codes \<open>010xxxxx\<close> with \<open>xxxxx\<close> from 1 to 26 and the codes \<open>110xxxxx\<close> but
  215 and 223, and the small letter is the same code with bit 5 set.
\<close>

lemma lower_char_bits [code]:
  "lower_char (Char b0 b1 b2 b3 b4 b5 b6 b7) =
     (if b6 \<and> \<not> b5 \<and>
         (if b7 then \<not> (b0 \<and> b1 \<and> b2 \<and> b4)
          else (b0 \<or> b1 \<or> b2 \<or> b3 \<or> b4) \<and> \<not> (b4 \<and> b3 \<and> (b2 \<or> (b1 \<and> b0))))
      then Char b0 b1 b2 b3 b4 True b6 b7
      else Char b0 b1 b2 b3 b4 b5 b6 b7)"
  by (cases b0; cases b1; cases b2; cases b3; cases b4; cases b5; cases b6; cases b7;
      simp add: lower_char_def upper_letters_def lower_letters_def)

section \<open>Facts about association lists as dicts\<close>

lemma map_of_update_same: "map_of (AList.update k v al) k = Some v"
  by (simp add: update_conv')

lemma map_of_update_other: "k' \<noteq> k \<Longrightarrow> map_of (AList.update k v al) k' = map_of al k'"
  by (simp add: update_conv')

lemma keys_update_present:
  "map_of al k = Some v0 \<Longrightarrow> map fst (AList.update k v al) = map fst al"
  by (simp add: update_keys map_of_eq_None_iff [symmetric])

lemma length_update_present:
  assumes "map_of al k = Some v0"
  shows "length (AList.update k v al) = length al"
proof -
  have "length (map fst (AList.update k v al)) = length (map fst al)"
    using assms by (simp only: keys_update_present)
  then show ?thesis by simp
qed

section \<open>The task store\<close>

text \<open>
  Claim C4. \<^verbatim>\<open>cancel_task(task_id)\<close> returns \<open>True\<close> exactly when the store holds
  a task under that id whose status is \<open>'pending'\<close> at the call. When it returns
  \<open>True\<close> that task's status has become \<open>'cancelled'\<close> (and nothing else of it has
  changed); when it returns \<open>False\<close> (unknown id, or a task that is running,
  completed, failed or already cancelled) the store is the one it was. No other task
  and no key is touched.
\<close>

theorem cancel_task_true_iff_pending:
  "(snd (cancel_task tasks tid) \<longleftrightarrow>
      (\<exists>task. map_of tasks tid = Some task \<and> status task = ''pending''))
   \<and> (snd (cancel_task tasks tid) \<longrightarrow>
        (\<exists>task. map_of tasks tid = Some task \<and>
           map_of (fst (cancel_task tasks tid)) tid = Some (task\<lparr>status := ''cancelled''\<rparr>)))
   \<and> (\<not> snd (cancel_task tasks tid) \<longrightarrow> fst (cancel_task tasks tid) = tasks)
   \<and> (\<forall>k. k \<noteq> tid \<longrightarrow> map_of (fst (cancel_task tasks tid)) k = map_of tasks k)
   \<and> map fst (fst (cancel_task tasks tid)) = map fst tasks"
  by (auto simp: cancel_task_def map_of_update_same map_of_update_other keys_update_present
      split: option.splits)

theorem cancel_task_true_iff_pending_witness:
  "snd (cancel_task [(''a'', example_task ''a'' ''pending''), (''b'', example_task ''b'' ''running'')] ''a'')
   \<and> map_of (fst (cancel_task [(''a'', example_task ''a'' ''pending''), (''b'', example_task ''b'' ''running'')] ''a'')) ''a''
       = Some (example_task ''a'' ''cancelled'')
   \<and> \<not> snd (cancel_task [(''a'', example_task ''a'' ''pending''), (''b'', example_task ''b'' ''running'')] ''b'')
   \<and> fst (cancel_task [(''a'', example_task ''a'' ''pending''), (''b'', example_task ''b'' ''running'')] ''b'')
       = [(''a'', example_task ''a'' ''pending''), (''b'', example_task ''b'' ''running'')]
   \<and> \<not> snd (cancel_task [(''a'', example_task ''a'' ''pending''), (''b'', example_task ''b'' ''running'')] ''zz'')"
  using
    cancel_task_true_iff_pending
      [of "[(''a'', example_task ''a'' ''pending''), (''b'', example_task ''b'' ''running'')]" "''a''"]
    cancel_task_true_iff_pending
      [of "[(''a'', example_task ''a'' ''pending''), (''b'', example_task ''b'' ''running'')]" "''b''"]
    cancel_task_true_iff_pending
      [of "[(''a'', example_task ''a'' ''pending''), (''b'', example_task ''b'' ''running'')]" "''zz''"]
  by (simp add: example_task_def)

text \<open>
  Claim C5. \<^verbatim>\<open>update_task_status(task_id, status, results)\<close> leaves the store as it
  is when the id is unknown. When the id is known, the task under it gets the new
  status; its stored result is replaced by the argument only when the argument is a
  non-empty dict, and is kept when the argument is \<open>None\<close> or empty; every other field
  of the task is kept. The tasks under all other ids, and the keys and their order, are
  unchanged in every case.
\<close>

theorem update_task_status_frame:
  "(map_of tasks tid = None \<longrightarrow> update_task_status tasks tid st res = tasks)
   \<and> (\<forall>task. map_of tasks tid = Some task \<longrightarrow>
         (\<exists>task'. map_of (update_task_status tasks tid st res) tid = Some task' \<and>
            status task' = st \<and>
            results task' = (if res = None \<or> res = Some [] then results task else res) \<and>
            task'\<lparr>status := status task, results := results task\<rparr> = task))
   \<and> (\<forall>k. k \<noteq> tid \<longrightarrow> map_of (update_task_status tasks tid st res) k = map_of tasks k)
   \<and> map fst (update_task_status tasks tid st res) = map fst tasks"
  by (cases res)
    (auto simp: update_task_status_def Let_def map_of_update_same map_of_update_other
      keys_update_present split: option.splits)

theorem update_task_status_frame_witness:
  "update_task_status [(''a'', example_task ''a'' ''running'')] ''zz'' ''failed'' None
     = [(''a'', example_task ''a'' ''running'')]
   \<and> (\<exists>task'. map_of (update_task_status
         [(''a'', (example_task ''a'' ''running'')\<lparr>results := Some [(''success'', PBool True)]\<rparr>),
          (''b'', example_task ''b'' ''pending'')] ''a'' ''completed'' None) ''a'' = Some task'
        \<and> status task' = ''completed''
        \<and> results task' = Some [(''success'', PBool True)])
   \<and> map_of (update_task_status
         [(''a'', (example_task ''a'' ''running'')\<lparr>results := Some [(''success'', PBool True)]\<rparr>),
          (''b'', example_task ''b'' ''pending'')] ''a'' ''completed'' None) ''b''
       = Some (example_task ''b'' ''pending'')"
proof -
  let ?s1 = "[(''a'', example_task ''a'' ''running'')]"
  let ?s2 = "[(''a'', (example_task ''a'' ''running'')\<lparr>results := Some [(''success'', PBool True)]\<rparr>),
              (''b'', example_task ''b'' ''pending'')]"
  have unknown: "map_of ?s1 ''zz'' = None" by simp
  have known: "map_of ?s2 ''a''
      = Some ((example_task ''a'' ''running'')\<lparr>results := Some [(''success'', PBool True)]\<rparr>)"
    by simp
  have other: "map_of ?s2 ''b'' = Some (example_task ''b'' ''pending'')" by simp
  from update_task_status_frame [of ?s1 "''zz''" "''failed''" None] unknown
  have a: "update_task_status ?s1 ''zz'' ''failed'' None = ?s1" by blast
  from update_task_status_frame [of ?s2 "''a''" "''completed''" None] known
  obtain task' where
    "map_of (update_task_status ?s2 ''a'' ''completed'' None) ''a'' = Some task'"
    "status task' = ''completed''"
    "results task' = results ((example_task ''a'' ''running'')\<lparr>results := Some [(''success'', PBool True)]\<rparr>)"
    by auto
  then have b: "\<exists>task'. map_of (update_task_status ?s2 ''a'' ''completed'' None) ''a'' = Some task'
        \<and> status task' = ''completed'' \<and> results task' = Some [(''success'', PBool True)]"
    by simp
  from update_task_status_frame [of ?s2 "''a''" "''completed''" None]
  have "map_of (update_task_status ?s2 ''a'' ''completed'' None) ''b'' = map_of ?s2 ''b''"
    by simp
  with other have c: "map_of (update_task_status ?s2 ''a'' ''completed'' None) ''b''
      = Some (example_task ''b'' ''pending'')"
    by simp
  from a b c show ?thesis by blast
qed

subsection \<open>Adding a task under an id that is taken\<close>

lemma make_task_id_same_second:
  "int_of_float t1 = int_of_float t2 \<Longrightarrow> make_task_id uid t1 = make_task_id uid t2"
  by (simp add: make_task_id_def)

lemma task_id_new_task: "task_id (new_task uid url sched txt t now) = make_task_id uid t"
  by (simp add: new_task_def)

lemma map_of_handle_notes_input:
  "map_of (handle_notes_input tasks uid url sched txt t now) (make_task_id uid t)
     = Some (new_task uid url sched txt t now)"
  by (simp add: handle_notes_input_def add_task_def task_id_new_task map_of_update_same)

lemma in_set_iff_map_of:
  "distinct (map fst al) \<Longrightarrow> (k, v) \<in> set al \<longleftrightarrow> map_of al k = Some v"
  by simp

text \<open>
  Claim C10. \<^verbatim>\<open>add_task\<close> makes no check for a duplicate: when the store holds a
  task under the id of the new one, the new task takes its place. The keys, their order
  and their number are as before, the tasks under the other ids are untouched, a lookup of
  the id gives the new task, and the old one is no longer stored under it. The id that
  intake gives a task is \<open>task_\<close>, the user id, \<open>_\<close> and the clock cut to whole
  seconds; so two tasks that one user creates within one second get one id, and after the
  second creation the store holds the second task under it and is no longer than after
  the first.
\<close>

theorem add_task_replaces_same_id:
  "(map_of tasks (task_id task) = Some old \<longrightarrow>
      snd (add_task tasks task) = task_id task
      \<and> map_of (fst (add_task tasks task)) (task_id task) = Some task
      \<and> map fst (fst (add_task tasks task)) = map fst tasks
      \<and> length (fst (add_task tasks task)) = length tasks
      \<and> (\<forall>k. k \<noteq> task_id task \<longrightarrow> map_of (fst (add_task tasks task)) k = map_of tasks k)
      \<and> (distinct (map fst tasks) \<and> old \<noteq> task
           \<longrightarrow> (task_id task, old) \<notin> set (fst (add_task tasks task))))
   \<and> make_task_id uid t1 = ''task_'' @ str_int uid @ ''_'' @ str_int (int_of_float t1)
   \<and> (int_of_float t1 = int_of_float t2 \<longrightarrow>
        task_id (new_task uid url1 sched1 txt1 t1 now1)
          = task_id (new_task uid url2 sched2 txt2 t2 now2)
        \<and> map_of (handle_notes_input (handle_notes_input tasks0 uid url1 sched1 txt1 t1 now1)
              uid url2 sched2 txt2 t2 now2) (make_task_id uid t1)
            = Some (new_task uid url2 sched2 txt2 t2 now2)
        \<and> map fst (handle_notes_input (handle_notes_input tasks0 uid url1 sched1 txt1 t1 now1)
              uid url2 sched2 txt2 t2 now2)
            = map fst (handle_notes_input tasks0 uid url1 sched1 txt1 t1 now1)
        \<and> length (handle_notes_input (handle_notes_input tasks0 uid url1 sched1 txt1 t1 now1)
              uid url2 sched2 txt2 t2 now2)
            = length (handle_notes_input tasks0 uid url1 sched1 txt1 t1 now1))"
proof (intro conjI impI)
  assume old: "map_of tasks (task_id task) = Some old"
  show "snd (add_task tasks task) = task_id task"
    by (simp add: add_task_def)
  show "map_of (fst (add_task tasks task)) (task_id task) = Some task"
    by (simp add: add_task_def map_of_update_same)
  show "map fst (fst (add_task tasks task)) = map fst tasks"
    using old by (simp add: add_task_def keys_update_present)
  show "length (fst (add_task tasks task)) = length tasks"
    using old by (simp add: add_task_def length_update_present)
  show "\<forall>k. k \<noteq> task_id task \<longrightarrow> map_of (fst (add_task tasks task)) k = map_of tasks k"
    by (simp add: add_task_def map_of_update_other)
  assume "distinct (map fst tasks) \<and> old \<noteq> task"
  then have d: "distinct (map fst (fst (add_task tasks task)))" and ne: "old \<noteq> task"
    by (simp_all add: add_task_def distinct_update)
  have "map_of (fst (add_task tasks task)) (task_id task) \<noteq> Some old"
    using ne by (simp add: add_task_def map_of_update_same)
  with d show "(task_id task, old) \<notin> set (fst (add_task tasks task))"
    by (simp only: in_set_iff_map_of) simp
next
  show "make_task_id uid t1 = ''task_'' @ str_int uid @ ''_'' @ str_int (int_of_float t1)"
    by (simp add: make_task_id_def)
next
  assume same: "int_of_float t1 = int_of_float t2"
  then have id: "make_task_id uid t1 = make_task_id uid t2"
    by (rule make_task_id_same_second)
  let ?first = "handle_notes_input tasks0 uid url1 sched1 txt1 t1 now1"
  have present: "map_of ?first (make_task_id uid t2) = Some (new_task uid url1 sched1 txt1 t1 now1)"
    using map_of_handle_notes_input [of tasks0 uid url1 sched1 txt1 t1 now1] id by simp
  show "task_id (new_task uid url1 sched1 txt1 t1 now1)
      = task_id (new_task uid url2 sched2 txt2 t2 now2)"
    using id by (simp add: task_id_new_task)
  show "map_of (handle_notes_input ?first uid url2 sched2 txt2 t2 now2) (make_task_id uid t1)
      = Some (new_task uid url2 sched2 txt2 t2 now2)"
    using map_of_handle_notes_input [of ?first uid url2 sched2 txt2 t2 now2] id by simp
  show "map fst (handle_notes_input ?first uid url2 sched2 txt2 t2 now2) = map fst ?first"
    using present
    by (simp add: handle_notes_input_def [of ?first] add_task_def task_id_new_task
        keys_update_present)
  show "length (handle_notes_input ?first uid url2 sched2 txt2 t2 now2) = length ?first"
    using present
    by (simp add: handle_notes_input_def [of ?first] add_task_def task_id_new_task
        length_update_present)
qed

theorem add_task_replaces_same_id_witness:
  "map_of [(''a'', example_task ''a'' ''running'')] (task_id (example_task ''a'' ''pending''))
     = Some (example_task ''a'' ''running'')
   \<and> fst (add_task [(''a'', example_task ''a'' ''running'')] (example_task ''a'' ''pending''))
     = [(''a'', example_task ''a'' ''pending'')]
   \<and> int_of_float (17000000002 / 10) = int_of_float (17000000009 / 10)
   \<and> length (handle_notes_input
        (handle_notes_input [] 7 ''https://example.org/a'' example_time ''first''
           (17000000002 / 10) example_time)
        7 ''https://example.org/b'' example_time ''second'' (17000000009 / 10) example_time)
     = 1
   \<and> map_of (handle_notes_input
        (handle_notes_input [] 7 ''https://example.org/a'' example_time ''first''
           (17000000002 / 10) example_time)
        7 ''https://example.org/b'' example_time ''second'' (17000000009 / 10) example_time)
        (make_task_id 7 (17000000002 / 10))
     = Some (new_task 7 ''https://example.org/b'' example_time ''second'' (17000000009 / 10)
          example_time)"
proof -
  let ?old = "example_task ''a'' ''running''"
  let ?new = "example_task ''a'' ''pending''"
  have present: "map_of [(''a'', ?old)] (task_id ?new) = Some ?old"
    by (simp add: example_task_def)
  have same: "int_of_float (17000000002 / 10) = int_of_float (17000000009 / 10)"
    by (simp add: int_of_float_def)
  note t = add_task_replaces_same_id
    [of "[(''a'', ?old)]" ?new ?old 7 "17000000002 / 10" "17000000009 / 10"
        "''https://example.org/a''" example_time "''first''" example_time
        "''https://example.org/b''" example_time "''second''" example_time "[]"]
  have replaced: "fst (add_task [(''a'', ?old)] ?new) = [(''a'', ?new)]"
    by (simp add: add_task_def example_task_def)
  let ?first = "handle_notes_input [] 7 ''https://example.org/a'' example_time ''first''
           (17000000002 / 10) example_time"
  let ?second = "handle_notes_input ?first
        7 ''https://example.org/b'' example_time ''second'' (17000000009 / 10) example_time"
  from t same have len: "length ?second = length ?first"
    and look: "map_of ?second (make_task_id 7 (17000000002 / 10))
      = Some (new_task 7 ''https://example.org/b'' example_time ''second'' (17000000009 / 10)
          example_time)"
    by blast+
  have "length ?first = 1"
    by (simp add: handle_notes_input_def add_task_def)
  with len have len1: "length ?second = 1" by simp
  show ?thesis
    by (intro conjI) (fact present replaced same len1 look)+
qed

section \<open>The result classifier\<close>

subsection \<open>What the metrics dict holds\<close>

lemma map_of_set_metric:
  "map_of (set_metric key ps f ctx m) k =
     (if k = key then (case first_match ps ctx of Some g \<Rightarrow> Some (f g) | None \<Rightarrow> map_of m k)
      else map_of m k)"
  by (simp add: set_metric_def update_conv' split: option.splits)


lemma metric_accuracy:
  "map_of (extract_metrics ctx) ''accuracy''
     = map_option add_percent (first_match accuracy_patterns ctx)"
  by (simp add: extract_metrics_def additional_patterns_def map_of_set_metric
      split: option.splits)

lemma metric_avg_response:
  "map_of (extract_metrics ctx) ''avg_response''
     = map_option (\<lambda>g. g @ ''ms'') (first_match response_patterns ctx)"
  by (simp add: extract_metrics_def additional_patterns_def map_of_set_metric
      split: option.splits)

lemma metric_precision:
  "map_of (extract_metrics ctx) ''precision''
     = first_match [seqs [Lit ''Precision'', colon_spaces, percent_group]] ctx"
  by (simp add: extract_metrics_def additional_patterns_def map_of_set_metric
      split: option.splits)

lemma metric_recall:
  "map_of (extract_metrics ctx) ''recall''
     = first_match [seqs [Lit ''Recall'', colon_spaces, percent_group]] ctx"
  by (simp add: extract_metrics_def additional_patterns_def map_of_set_metric
      split: option.splits)



lemma endswith_add_percent: "endswith (add_percent v) ''%''"
  by (auto simp: add_percent_def endswith_def)

lemma endswith_ms: "endswith (g @ ''ms'') ''ms''"
  by (simp add: endswith_def)

subsection \<open>The flag \<open>has_results\<close>\<close>

lemma metrics_classify_context: "metrics (classify_context ctx) = extract_metrics ctx"
  by (simp add: classify_context_def Let_def)




subsection \<open>Two pages, evaluated\<close>


lemma secondary_only_page:
  "extract_submission_details
     ''run-7 submitted. Precision: 0.85 Recall: 70% F1: 0.77 Rank #4'' ''Run-7'' =
     \<lparr>found_status = ''submitted'', has_results = False, is_processing = True,
      has_error = False, details = ''Status: submitted, No metrics found'',
      metrics = [(''position'', ''#4''), (''f1_score'', ''0.77''),
                 (''precision'', ''0.85''), (''recall'', ''70%'')]\<rparr>"
  by code_simp

lemma units_page:
  "extract_submission_details ''run-7 accuracy 92 latency: 40 ms precision 7%'' ''run-7'' =
     \<lparr>found_status = ''unknown'', has_results = True, is_processing = False,
      has_error = False, details = ''Status: unknown, Accuracy: 92%, Response: 40ms'',
      metrics = [(''accuracy'', ''92%''), (''avg_response'', ''40ms''),
                 (''precision'', ''7%'')]\<rparr>"
  by code_simp



text \<open>
  Claim C6, as the code has it. Where the marker is found, an extracted \<open>accuracy\<close>
  always ends with \<open>%\<close> and an extracted \<open>avg_response\<close> always ends with \<open>ms\<close>,
  whether or not the page had the unit. \<open>precision\<close> and \<open>recall\<close> are stored as
  their pattern captured them, a number with the \<open>%\<close> only if the page has one
  right after it.
\<close>

theorem accuracy_and_response_carry_units:
  "(\<forall>v. map_of (metrics (extract_submission_details page_text target_notes)) ''accuracy''
          = Some v \<longrightarrow> endswith v ''%'')
   \<and> (\<forall>v. map_of (metrics (extract_submission_details page_text target_notes)) ''avg_response''
          = Some v \<longrightarrow> endswith v ''ms'')
   \<and> (\<forall>notes_pos. find (lower page_text) (lower target_notes) = Some notes_pos \<longrightarrow>
        map_of (metrics (extract_submission_details page_text target_notes)) ''precision''
          = first_match [seqs [Lit ''Precision'', colon_spaces, percent_group]]
              (context_window page_text notes_pos)
        \<and> map_of (metrics (extract_submission_details page_text target_notes)) ''recall''
          = first_match [seqs [Lit ''Recall'', colon_spaces, percent_group]]
              (context_window page_text notes_pos))"
proof (cases "find (lower page_text) (lower target_notes)")
  case None
  then show ?thesis by (simp add: extract_submission_details_def)
next
  case (Some notes_pos)
  then have m: "metrics (extract_submission_details page_text target_notes)
      = extract_metrics (context_window page_text notes_pos)"
    by (simp add: extract_submission_details_def metrics_classify_context)
  show ?thesis
    unfolding m using Some
    by (auto simp: metric_accuracy metric_avg_response metric_precision metric_recall
        endswith_add_percent endswith_ms)
qed

theorem accuracy_and_response_carry_units_witness:
  "map_of (metrics (extract_submission_details
       ''run-7 accuracy 92 latency: 40 ms precision 7%'' ''run-7'')) ''accuracy'' = Some ''92%''
   \<and> endswith ''92%'' ''%''
   \<and> map_of (metrics (extract_submission_details
       ''run-7 accuracy 92 latency: 40 ms precision 7%'' ''run-7'')) ''avg_response'' = Some ''40ms''
   \<and> endswith ''40ms'' ''ms''
   \<and> find (lower ''run-7 accuracy 92 latency: 40 ms precision 7%'') (lower ''run-7'') = Some 0
   \<and> first_match [seqs [Lit ''Precision'', colon_spaces, percent_group]]
        (context_window ''run-7 accuracy 92 latency: 40 ms precision 7%'' 0) = Some ''7%''"
proof -
  let ?p = "''run-7 accuracy 92 latency: 40 ms precision 7%''"
  let ?r = "extract_submission_details ?p ''run-7''"
  have a: "map_of (metrics ?r) ''accuracy'' = Some ''92%''"
    and b: "map_of (metrics ?r) ''avg_response'' = Some ''40ms''"
    and c: "map_of (metrics ?r) ''precision'' = Some ''7%''"
    by (simp_all add: units_page)
  have f: "find (lower ?p) (lower ''run-7'') = Some 0"
    by code_simp
  note t = accuracy_and_response_carry_units [of ?p "''run-7''"]
  from t have "\<forall>v. map_of (metrics ?r) ''accuracy'' = Some v \<longrightarrow> endswith v ''%''"
    by (elim conjE)
  with a have a': "endswith ''92%'' ''%''" by simp
  from t have "\<forall>v. map_of (metrics ?r) ''avg_response'' = Some v \<longrightarrow> endswith v ''ms''"
    by (elim conjE)
  with b have b': "endswith ''40ms'' ''ms''" by simp
  from t have "\<forall>notes_pos. find (lower ?p) (lower ''run-7'') = Some notes_pos \<longrightarrow>
        map_of (metrics ?r) ''precision''
          = first_match [seqs [Lit ''Precision'', colon_spaces, percent_group]]
              (context_window ?p notes_pos)
        \<and> map_of (metrics ?r) ''recall''
          = first_match [seqs [Lit ''Recall'', colon_spaces, percent_group]]
              (context_window ?p notes_pos)"
    by (elim conjE)
  with f have "map_of (metrics ?r) ''precision''
          = first_match [seqs [Lit ''Precision'', colon_spaces, percent_group]]
              (context_window ?p 0)"
    by simp
  with c have c': "first_match [seqs [Lit ''Precision'', colon_spaces, percent_group]]
        (context_window ?p 0) = Some ''7%''"
    by simp
  show ?thesis
    by (intro conjI) (fact a a' b b' f c')+
qed

text \<open>
  The claim as the spec states it fails for \<open>precision\<close>: on the page
  \<open>run-7 submitted. Precision: 0.85 ...\<close> the marker is found and \<open>precision\<close> is
  extracted as \<open>0.85\<close>, with no \<open>%\<close>.
\<close>

theorem precision_without_percent_counterexample:
  "find (lower ''run-7 submitted. Precision: 0.85 Recall: 70% F1: 0.77 Rank #4'')
       (lower ''Run-7'') = Some 0
   \<and> map_of (metrics (extract_submission_details
         ''run-7 submitted. Precision: 0.85 Recall: 70% F1: 0.77 Rank #4'' ''Run-7''))
       ''precision'' = Some ''0.85''
   \<and> \<not> endswith ''0.85'' ''%''"
proof -
  have "find (lower ''run-7 submitted. Precision: 0.85 Recall: 70% F1: 0.77 Rank #4'')
       (lower ''Run-7'') = Some 0"
    by code_simp
  moreover have "\<not> endswith ''0.85'' ''%''"
    by code_simp
  ultimately show ?thesis by (simp add: secondary_only_page)
qed

section \<open>Monitoring\<close>

lemma initial_checks_none_iff:
  "initial_checks target_notes loads i n = None
     \<longleftrightarrow> (\<forall>j. i \<le> j \<and> j < i + n \<longrightarrow> \<not> shows_notes target_notes (loads j))"
proof (induction n arbitrary: i)
  case 0
  then show ?case by auto
next
  case (Suc n)
  have split: "(\<forall>j. i \<le> j \<and> j < i + Suc n \<longrightarrow> \<not> shows_notes target_notes (loads j))
      \<longleftrightarrow> (\<not> shows_notes target_notes (loads i)
           \<and> (\<forall>j. Suc i \<le> j \<and> j < Suc i + n \<longrightarrow> \<not> shows_notes target_notes (loads j)))"
  proof (intro iffI conjI allI impI)
    assume all: "\<forall>j. i \<le> j \<and> j < i + Suc n \<longrightarrow> \<not> shows_notes target_notes (loads j)"
    show "\<not> shows_notes target_notes (loads i)"
      using all by simp
    fix j assume "Suc i \<le> j \<and> j < Suc i + n"
    then have "i \<le> j \<and> j < i + Suc n" by simp
    with all show "\<not> shows_notes target_notes (loads j)" by blast
  next
    fix j
    assume rest: "\<not> shows_notes target_notes (loads i)
           \<and> (\<forall>j. Suc i \<le> j \<and> j < Suc i + n \<longrightarrow> \<not> shows_notes target_notes (loads j))"
      and j: "i \<le> j \<and> j < i + Suc n"
    show "\<not> shows_notes target_notes (loads j)"
    proof (cases "j = i")
      case True
      with rest show ?thesis by simp
    next
      case False
      with j have "Suc i \<le> j \<and> j < Suc i + n" by simp
      with rest show ?thesis by blast
    qed
  qed
  show ?case
    unfolding split
    by (cases "loads i") (simp_all add: Suc.IH)
qed

lemma result_checks_found:
  "map_of (result_checks target_notes loads k n) ''found'' = Some (PBool True)"
  by (induction n arbitrary: k) (simp_all add: Let_def split: fetch.splits)

lemma monitor_found_after_phase1:
  assumes "initial_checks target_notes loads 0 max_initial_checks = Some i"
  shows "map_of (monitor_results_with_cooldown_detection target_notes loads) ''found''
    = Some (PBool True)"
  using assms by (simp add: monitor_results_with_cooldown_detection_def result_checks_found)

text \<open>
  Claim C7. When none of the \<open>max_initial_checks\<close> loads of the confirmation phase
  shows the notes (a load that raised shows nothing), the function returns the cooldown
  record, \<open>found = False\<close> and \<open>cooldown = True\<close>, which has no \<open>has_error\<close> entry
  (the errored record has \<open>found = True\<close> and \<open>has_error = True\<close>). The converse
  holds too: the cooldown record is returned in no other case.
\<close>

theorem cooldown_when_confirmation_exhausted:
  "((\<forall>j. j < max_initial_checks \<longrightarrow> \<not> shows_notes target_notes (loads j))
      \<longleftrightarrow> monitor_results_with_cooldown_detection target_notes loads = cooldown_result)
   \<and> ((\<forall>j. j < max_initial_checks \<longrightarrow> \<not> shows_notes target_notes (loads j))
      \<longrightarrow> map_of (monitor_results_with_cooldown_detection target_notes loads) ''found''
            = Some (PBool False)
        \<and> map_of (monitor_results_with_cooldown_detection target_notes loads) ''cooldown''
            = Some (PBool True)
        \<and> map_of (monitor_results_with_cooldown_detection target_notes loads) ''has_error''
            = None)"
proof (cases "initial_checks target_notes loads 0 max_initial_checks")
  case None
  then have absent: "\<forall>j. j < max_initial_checks \<longrightarrow> \<not> shows_notes target_notes (loads j)"
    by (simp add: initial_checks_none_iff)
  from None have "monitor_results_with_cooldown_detection target_notes loads = cooldown_result"
    by (simp add: monitor_results_with_cooldown_detection_def)
  with absent show ?thesis by (simp add: cooldown_result_def)
next
  case (Some i)
  then have "initial_checks target_notes loads 0 max_initial_checks \<noteq> None" by simp
  then have present: "\<not> (\<forall>j. j < max_initial_checks \<longrightarrow> \<not> shows_notes target_notes (loads j))"
    by (simp add: initial_checks_none_iff)
  from Some have "map_of (monitor_results_with_cooldown_detection target_notes loads) ''found''
      = Some (PBool True)"
    by (rule monitor_found_after_phase1)
  then have "monitor_results_with_cooldown_detection target_notes loads \<noteq> cooldown_result"
    by (auto simp: cooldown_result_def)
  with present show ?thesis by blast
qed

theorem cooldown_when_confirmation_exhausted_witness:
  "\<not> shows_notes ''run-7'' Raised
   \<and> \<not> shows_notes ''run-7'' (Page ''No submissions yet'')
   \<and> monitor_results_with_cooldown_detection ''run-7''
        (\<lambda>k. if k = 0 then Raised else Page ''No submissions yet'') = cooldown_result
   \<and> map_of (monitor_results_with_cooldown_detection ''run-7''
        (\<lambda>k. if k = 0 then Raised else Page ''No submissions yet'')) ''found'' = Some (PBool False)
   \<and> map_of (monitor_results_with_cooldown_detection ''run-7''
        (\<lambda>k. if k = 0 then Raised else Page ''No submissions yet'')) ''cooldown'' = Some (PBool True)"
proof -
  let ?loads = "\<lambda>k::nat. if k = 0 then Raised else Page ''No submissions yet''"
  have a: "\<not> shows_notes ''run-7'' Raised" by simp
  have b: "\<not> shows_notes ''run-7'' (Page ''No submissions yet'')" by code_simp
  from a b have absent: "\<forall>j. j < max_initial_checks \<longrightarrow> \<not> shows_notes ''run-7'' (?loads j)"
    by simp
  note t = cooldown_when_confirmation_exhausted [of "''run-7''" ?loads]
  from t absent have c: "monitor_results_with_cooldown_detection ''run-7'' ?loads = cooldown_result"
    by blast
  from t absent have d: "map_of (monitor_results_with_cooldown_detection ''run-7'' ?loads) ''found''
      = Some (PBool False)"
    and e: "map_of (monitor_results_with_cooldown_detection ''run-7'' ?loads) ''cooldown''
      = Some (PBool True)"
    by blast+
  show ?thesis
    by (intro conjI) (fact a b c d e)+
qed

section \<open>The calendar\<close>

lemma days_before_month_Suc:
  "1 \<le> m \<Longrightarrow> days_before_month y (Suc m) = days_before_month y m + int (days_in_month y m)"
  by (simp add: days_before_month_def)

lemma days_before_month_1: "days_before_month y (Suc 0) = 0"
  by (simp add: days_before_month_def)

lemma days_before_month_12:
  "days_before_month y 12 = (if is_leap y then 335 else 334)"
proof -
  have "[1 ..< 12] = [1, 2, 3, 4, 5, 6, 7, 8, 9, 10, 11 :: nat]"
    by (simp add: upt_rec)
  then show ?thesis
    by (simp add: days_before_month_def days_in_month_def)
qed

lemma div_step:
  "int (Suc q) div int k = int q div int k + (if Suc q mod k = 0 then 1 else 0)"
proof -
  have "int (Suc q) div int k = int (Suc q div k)"
    by (simp only: of_nat_div)
  also have "\<dots> = int (q div k) + (if Suc q mod k = 0 then 1 else 0)"
    by (simp add: div_Suc)
  also have "int (q div k) = int q div int k"
    by (simp only: of_nat_div)
  finally show ?thesis .
qed

lemma mod_400_100: "(n::nat) mod 400 = 0 \<Longrightarrow> n mod 100 = 0"
proof -
  assume "n mod 400 = 0"
  then have "400 dvd n" by (simp add: mod_eq_0_iff_dvd)
  moreover have "(100::nat) dvd 400" by simp
  ultimately have "100 dvd n" by (rule dvd_trans [rotated])
  then show ?thesis by (simp add: mod_eq_0_iff_dvd)
qed

lemma mod_100_4: "(n::nat) mod 100 = 0 \<Longrightarrow> n mod 4 = 0"
proof -
  assume "n mod 100 = 0"
  then have "100 dvd n" by (simp add: mod_eq_0_iff_dvd)
  moreover have "(4::nat) dvd 100" by simp
  ultimately have "4 dvd n" by (rule dvd_trans [rotated])
  then show ?thesis by (simp add: mod_eq_0_iff_dvd)
qed

lemma days_before_year_Suc:
  assumes "1 \<le> y"
  shows "days_before_year (Suc y) = days_before_year y + (if is_leap y then 366 else 365)"
proof -
  obtain q where y: "y = Suc q"
    using assms by (cases y) simp_all
  have l: "days_before_year (Suc y)
      = int (Suc q) * 365 + int (Suc q) div int 4 - int (Suc q) div int 100 + int (Suc q) div int 400"
    by (simp add: days_before_year_def Let_def y)
  have r: "days_before_year y = int q * 365 + int q div int 4 - int q div int 100 + int q div int 400"
    by (simp add: days_before_year_def Let_def y)
  have step: "days_before_year (Suc y) = days_before_year y + 365
      + (if Suc q mod 4 = 0 then 1 else 0) - (if Suc q mod 100 = 0 then 1 else 0)
      + (if Suc q mod 400 = 0 then 1 else 0)"
    unfolding l r div_step by (simp add: algebra_simps)
  have leap: "is_leap y \<longleftrightarrow>
      (Suc q mod 4 = 0 \<and> (Suc q mod 100 \<noteq> 0 \<or> Suc q mod 400 = 0))"
    by (simp only: is_leap_def y)
  show ?thesis
    unfolding step leap
    using mod_400_100 [of "Suc q"] mod_100_4 [of "Suc q"]
    by (cases "Suc q mod 4 = 0"; cases "Suc q mod 100 = 0"; cases "Suc q mod 400 = 0") simp_all
qed

text \<open>The day after a date is the next ordinal, and is a date again.\<close>

lemma toordinal_add_one_day:
  assumes "valid_date d" and "add_one_day d = Inr d'"
  shows "toordinal d' = toordinal d + 1" and "valid_date d'"
proof -
  have shape: "(day d < days_in_month (year d) (month d) \<and> d' = d\<lparr>day := day d + 1\<rparr>)
      \<or> (day d = days_in_month (year d) (month d) \<and> month d < 12
          \<and> d' = d\<lparr>month := month d + 1, day := 1\<rparr>)
      \<or> (day d = 31 \<and> month d = 12 \<and> year d < 9999
          \<and> d' = d\<lparr>year := year d + 1, month := 1, day := 1\<rparr>)"
    using assms
    by (auto simp: add_one_day_def valid_date_def days_in_month_def split: if_splits)
  show "toordinal d' = toordinal d + 1"
    using shape assms(1)
    by (auto simp: toordinal_def valid_date_def days_before_month_Suc days_before_month_1
        days_before_month_12 days_before_year_Suc)
  show "valid_date d'"
    using shape assms(1)
    by (auto simp: valid_date_def days_in_month_def)
qed

lemma add_one_day_overflow_iff:
  "valid_date d \<Longrightarrow>
     add_one_day d = Inl e \<longleftrightarrow> (e = OverflowError \<and> year d = 9999 \<and> month d = 12 \<and> day d = 31)"
  by (auto simp: add_one_day_def valid_date_def days_in_month_def split: if_splits)


text \<open>Adding a day to a datetime moves its date and nothing else.\<close>

lemma add_one_day_datetime:
  "add_one_day (replace_tzinfo tz (combine d t))
     = (case add_one_day d of Inl e \<Rightarrow> Inl e | Inr d' \<Rightarrow> Inr (replace_tzinfo tz (combine d' t)))"
  by (simp add: add_one_day_def replace_tzinfo_def combine_def)


lemma valid_date_date_of: "valid_date (date_of dt) = valid_date dt"
  by (simp add: valid_date_def date_of_def)

lemma toordinal_date_of: "toordinal (date_of dt) = toordinal dt"
  by (simp add: toordinal_def date_of_def)

lemma toordinal_combine: "toordinal (replace_tzinfo tz (combine d t)) = toordinal d"
  by (simp add: toordinal_def replace_tzinfo_def combine_def)

text \<open>
  The instant of a datetime lies within its day on the clock of its zone; a day has
  86400000000 microseconds.
\<close>

lemma instant_bounds:
  assumes "valid_time (tod dt)"
  shows "(toordinal dt * 1440 - utcoffset dt) * 60000000 \<le> instant dt"
    and "instant dt < ((toordinal dt + 1) * 1440 - utcoffset dt) * 60000000"
  using assms by (simp_all add: instant_def valid_time_def algebra_simps)

lemma utcoffset_replace_tzinfo: "utcoffset (replace_tzinfo tz (combine d t)) = (case tz of None \<Rightarrow> 0 | Some off \<Rightarrow> off)"
  by (simp add: utcoffset_def replace_tzinfo_def combine_def)

lemma tod_replace_tzinfo: "tod (replace_tzinfo tz (combine d t)) = t"
  by (simp add: replace_tzinfo_def combine_def)

text \<open>Any time of a later day, in the same zone, is a later instant.\<close>

lemma later_day_later_instant:
  assumes "valid_time (tod a)" and "valid_time (tod b)" and "utcoffset a = utcoffset b"
    and "toordinal a < toordinal b"
  shows "instant a < instant b"
proof -
  have "instant a < ((toordinal a + 1) * 1440 - utcoffset a) * 60000000"
    using assms(1) by (rule instant_bounds)
  also have "\<dots> \<le> (toordinal b * 1440 - utcoffset b) * 60000000"
    using assms(3,4) by simp
  also have "\<dots> \<le> instant b"
    using assms(2) by (rule instant_bounds)
  finally show ?thesis .
qed

section \<open>The time parser\<close>

lemma and_then_Inl [simp]: "and_then (Inl e) f = Inl e"
  by (simp add: and_then_def)

lemma and_then_Inr [simp]: "and_then (Inr x) f = f x"
  by (simp add: and_then_def)


lemma and_then_eq_Inr:
  "and_then r f = Inr y \<longleftrightarrow> (\<exists>x. r = Inr x \<and> f x = Inr y)"
  by (cases r) simp_all

subsection \<open>The time of day\<close>


lemma time_replace_Inr:
  "time_replace h m = Inr t \<longleftrightarrow>
     (h \<le> 23 \<and> m \<le> 59 \<and> t = \<lparr>hour = h, minute = m, second = 0, microsecond = 0\<rparr>)"
  by (auto simp: time_replace_def)


lemma parse_time_token_valid:
  assumes "parse_time_token t = Inr tm"
  shows "valid_time tm"
  using assms
  by (auto simp: parse_time_token_def parse_12hour_def parse_24hour_def time_replace_Inr
      valid_time_def split: option.splits)

subsection \<open>The schedule\<close>



lemma localize_since_1945:
  assumes "since_1945_10_15 d" and "\<not> on_last_day d"
  shows "localize earlier (combine d tm) = Inr (replace_tzinfo IST (combine d tm))"
proof -
  from assms(1) have "since_1945_10_15 (combine d tm)" and "\<not> on_first_day (combine d tm)"
    by (auto simp: since_1945_10_15_def on_first_day_def combine_def)
  moreover from assms(2) have "\<not> on_last_day (combine d tm)"
    by (simp add: on_last_day_def combine_def)
  ultimately show ?thesis
    by (simp add: localize_def IST_def)
qed










lemma strptime_date_valid: "strptime_date s = Inr d \<Longrightarrow> valid_date d"
  by (auto simp: strptime_date_def Let_def split: list.splits if_splits)

text \<open>
  A time of today that is not after \<open>now\<close>, moved to the next day, is after \<open>now\<close>;
  so is every time of tomorrow.
\<close>

lemma next_day_is_future:
  assumes now: "valid_datetime now" "tzinfo now = IST"
    and next_day: "add_one_day (date_of now) = Inr d'"
    and tm: "valid_time tm"
  shows "instant now < instant (replace_tzinfo IST (combine d' tm))"
proof -
  have "valid_date (date_of now)"
    using now(1) by (simp add: valid_datetime_def valid_date_date_of)
  from this next_day have "toordinal d' = toordinal (date_of now) + 1"
    by (rule toordinal_add_one_day(1))
  then have ord: "toordinal now < toordinal (replace_tzinfo IST (combine d' tm))"
    by (simp add: toordinal_combine toordinal_date_of)
  have "utcoffset now = 330"
    using now(2) by (simp add: utcoffset_def IST_def)
  moreover have "utcoffset (replace_tzinfo IST (combine d' tm)) = 330"
    by (simp add: utcoffset_replace_tzinfo IST_def)
  ultimately have off: "utcoffset now = utcoffset (replace_tzinfo IST (combine d' tm))"
    by simp
  have "valid_time (tod now)"
    using now(1) by (simp add: valid_datetime_def)
  moreover have "valid_time (tod (replace_tzinfo IST (combine d' tm)))"
    using tm by (simp add: tod_replace_tzinfo)
  ultimately show ?thesis
    using off ord by (rule later_day_later_instant)
qed


lemma explicit_date_explicit:
  "explicit_date d0 t0 = Inr (d, t, True) \<Longrightarrow>
     \<exists>cs. re_match False date_pattern t0 = Some cs \<and> strptime_date (group cs 1) = Inr d"
  by (auto simp: explicit_date_def and_then_eq_Inr split: option.splits)









subsection \<open>Runs of the parser\<close>

lemma example_time_valid:
  "valid_datetime example_time \<and> tzinfo example_time = IST \<and> since_1945_10_15 example_time"
  by (simp add: example_time_def valid_datetime_def valid_date_def valid_time_def
      days_in_month_def IST_def since_1945_10_15_def)

lemma parse_example_9_30_am:
  "parse_time_input earlier example_time ''9:30 AM''
     = Inr \<lparr>year = 2024, month = 1, day = 16,
            tod = \<lparr>hour = 9, minute = 30, second = 0, microsecond = 0\<rparr>, tzinfo = IST\<rparr>"
  by code_simp


lemma parse_example_bad_date:
  "parse_time_input example_earlier example_time ''2024-02-30 9:30 am''
     = Inl (ValueError NotADate)"
  by code_simp


lemma parse_example_08_05:
  "\<not> startswith (lower (strip ''08:05'')) ''tomorrow''
   \<and> re_match False date_pattern (lower (strip ''08:05'')) = None
   \<and> parse_time_token (lower (strip ''08:05''))
       = Inr \<lparr>hour = 8, minute = 5, second = 0, microsecond = 0\<rparr>
   \<and> instant (replace_tzinfo IST (combine (date_of example_time)
         \<lparr>hour = 8, minute = 5, second = 0, microsecond = 0\<rparr>)) \<le> instant example_time
   \<and> add_one_day (date_of example_time) = Inr \<lparr>year = 2024, month = 1, day = 16\<rparr>"
  by code_simp


text \<open>
  On the last and on the first day of the calendar \<^verbatim>\<open>localize\<close> overflows, whatever
  the time of day.
\<close>

lemma parse_example_last_day:
  "parse_time_input example_earlier example_time ''9999-12-31 10:00 am'' = Inl OverflowError"
  by code_simp

lemma parse_example_first_day:
  "parse_time_input example_earlier example_time ''0001-01-01 10:00 am'' = Inl OverflowError"
  by code_simp

subsection \<open>What the parser returns and what it raises\<close>




text \<open>
  Claim C8. A bare time (no \<open>tomorrow\<close> prefix, no explicit date, a time token that
  parses) whose instant on the current date is not strictly after \<open>now\<close> is returned on
  the following day: \<open>next_day\<close> is the date after that of \<open>now\<close>, \<open>now\<close> being
  the clock of the program, a datetime in IST on or after 1945-10-15, the day from which
  the zone has that offset. Parsing \<open>9:30 AM\<close> at 2024-01-15 14:00 IST gives
  2024-01-16 09:30 IST.
\<close>

theorem bare_past_time_rolls_to_next_day:
  "(valid_datetime now \<and> tzinfo now = IST \<and> since_1945_10_15 now
      \<and> \<not> startswith (lower (strip txt)) ''tomorrow''
      \<and> re_match False date_pattern (lower (strip txt)) = None
      \<and> parse_time_token (lower (strip txt)) = Inr tm
      \<and> instant (replace_tzinfo IST (combine (date_of now) tm)) \<le> instant now
      \<and> add_one_day (date_of now) = Inr next_day
    \<longrightarrow> parse_time_input earlier now txt = Inr (replace_tzinfo IST (combine next_day tm))
        \<and> toordinal next_day = toordinal now + 1)
   \<and> parse_time_input earlier
        \<lparr>year = 2024, month = 1, day = 15,
         tod = \<lparr>hour = 14, minute = 0, second = 0, microsecond = 0\<rparr>, tzinfo = IST\<rparr>
        ''9:30 AM''
      = Inr \<lparr>year = 2024, month = 1, day = 16,
             tod = \<lparr>hour = 9, minute = 30, second = 0, microsecond = 0\<rparr>, tzinfo = IST\<rparr>"
proof (intro conjI impI)
  show "parse_time_input earlier
        \<lparr>year = 2024, month = 1, day = 15,
         tod = \<lparr>hour = 14, minute = 0, second = 0, microsecond = 0\<rparr>, tzinfo = IST\<rparr>
        ''9:30 AM''
      = Inr \<lparr>year = 2024, month = 1, day = 16,
             tod = \<lparr>hour = 9, minute = 30, second = 0, microsecond = 0\<rparr>, tzinfo = IST\<rparr>"
    using parse_example_9_30_am by (simp add: example_time_def)
next
  assume h: "valid_datetime now \<and> tzinfo now = IST \<and> since_1945_10_15 now
      \<and> \<not> startswith (lower (strip txt)) ''tomorrow''
      \<and> re_match False date_pattern (lower (strip txt)) = None
      \<and> parse_time_token (lower (strip txt)) = Inr tm
      \<and> instant (replace_tzinfo IST (combine (date_of now) tm)) \<le> instant now
      \<and> add_one_day (date_of now) = Inr next_day"
  let ?t = "lower (strip txt)"
  let ?today = "replace_tzinfo IST (combine (date_of now) tm)"
  from h have now: "valid_datetime now" "tzinfo now = IST"
    and since: "since_1945_10_15 now"
    and bare: "\<not> startswith ?t ''tomorrow''" "re_match False date_pattern ?t = None"
    and tok: "parse_time_token ?t = Inr tm"
    and past: "instant ?today \<le> instant now"
    and next_day: "add_one_day (date_of now) = Inr next_day"
    by simp_all
  from tok have tm: "valid_time tm" by (rule parse_time_token_valid)
  have pre: "tomorrow_prefix now ?t = Inr (date_of now, ?t)"
    using bare(1) by (simp add: tomorrow_prefix_def)
  have ex: "explicit_date (date_of now) ?t = Inr (date_of now, ?t, False)"
    using bare(2) by (simp add: explicit_date_def)
  have "since_1945_10_15 (date_of now)"
    using since by (simp add: since_1945_10_15_def date_of_def)
  moreover have "\<not> on_last_day (date_of now)"
    using next_day by (auto simp: on_last_day_def add_one_day_def days_in_month_def)
  ultimately have loc: "localize earlier (combine (date_of now) tm) = Inr ?today"
    by (rule localize_since_1945)
  have roll: "roll_forward now ?today False ?t = Inr (replace_tzinfo IST (combine next_day tm))"
    using past bare(1) next_day
    by (simp add: roll_forward_def dt_le_def add_one_day_datetime)
  have later: "instant now < instant (replace_tzinfo IST (combine next_day tm))"
    using now next_day tm by (rule next_day_is_future)
  from loc roll later have "schedule earlier now (date_of now) tm False ?t
      = Inr (replace_tzinfo IST (combine next_day tm))"
    by (simp add: schedule_def dt_le_def)
  with pre ex tok
  show "parse_time_input earlier now txt = Inr (replace_tzinfo IST (combine next_day tm))"
    by (simp add: parse_time_input_def)
  have "valid_date (date_of now)"
    using now(1) by (simp add: valid_datetime_def valid_date_date_of)
  from this next_day have "toordinal next_day = toordinal (date_of now) + 1"
    by (rule toordinal_add_one_day(1))
  then show "toordinal next_day = toordinal now + 1"
    by (simp add: toordinal_date_of)
qed

theorem bare_past_time_rolls_to_next_day_witness:
  "valid_datetime example_time \<and> tzinfo example_time = IST \<and> since_1945_10_15 example_time
   \<and> \<not> startswith (lower (strip ''08:05'')) ''tomorrow''
   \<and> re_match False date_pattern (lower (strip ''08:05'')) = None
   \<and> parse_time_token (lower (strip ''08:05''))
       = Inr \<lparr>hour = 8, minute = 5, second = 0, microsecond = 0\<rparr>
   \<and> instant (replace_tzinfo IST (combine (date_of example_time)
         \<lparr>hour = 8, minute = 5, second = 0, microsecond = 0\<rparr>)) \<le> instant example_time
   \<and> add_one_day (date_of example_time) = Inr \<lparr>year = 2024, month = 1, day = 16\<rparr>
   \<and> parse_time_input example_earlier example_time ''08:05''
       = Inr (replace_tzinfo IST (combine \<lparr>year = 2024, month = 1, day = 16\<rparr>
           \<lparr>hour = 8, minute = 5, second = 0, microsecond = 0\<rparr>))"
proof -
  let ?tm = "\<lparr>hour = 8, minute = 5, second = 0, microsecond = 0\<rparr>"
  let ?next = "\<lparr>year = 2024, month = 1, day = 16\<rparr>"
  have hyps: "valid_datetime example_time \<and> tzinfo example_time = IST
      \<and> since_1945_10_15 example_time
      \<and> \<not> startswith (lower (strip ''08:05'')) ''tomorrow''
      \<and> re_match False date_pattern (lower (strip ''08:05'')) = None
      \<and> parse_time_token (lower (strip ''08:05'')) = Inr ?tm
      \<and> instant (replace_tzinfo IST (combine (date_of example_time) ?tm))
          \<le> instant example_time
      \<and> add_one_day (date_of example_time) = Inr ?next"
    using example_time_valid parse_example_08_05 by (intro conjI) simp_all
  from bare_past_time_rolls_to_next_day [of example_time "''08:05''" ?tm ?next example_earlier]
  have "valid_datetime example_time \<and> tzinfo example_time = IST
      \<and> since_1945_10_15 example_time
      \<and> \<not> startswith (lower (strip ''08:05'')) ''tomorrow''
      \<and> re_match False date_pattern (lower (strip ''08:05'')) = None
      \<and> parse_time_token (lower (strip ''08:05'')) = Inr ?tm
      \<and> instant (replace_tzinfo IST (combine (date_of example_time) ?tm))
          \<le> instant example_time
      \<and> add_one_day (date_of example_time) = Inr ?next
    \<longrightarrow> parse_time_input example_earlier example_time ''08:05''
          = Inr (replace_tzinfo IST (combine ?next ?tm))
        \<and> toordinal ?next = toordinal example_time + 1"
    by (elim conjE)
  from this hyps
  have "parse_time_input example_earlier example_time ''08:05''
          = Inr (replace_tzinfo IST (combine ?next ?tm))
        \<and> toordinal ?next = toordinal example_time + 1"
    by (rule mp)
  then have run: "parse_time_input example_earlier example_time ''08:05''
      = Inr (replace_tzinfo IST (combine ?next ?tm))"
    by (rule conjunct1)
  from hyps have h1: "valid_datetime example_time"
    and h2: "tzinfo example_time = IST"
    and h2': "since_1945_10_15 example_time"
    and h3: "\<not> startswith (lower (strip ''08:05'')) ''tomorrow''"
    and h4: "re_match False date_pattern (lower (strip ''08:05'')) = None"
    and h5: "parse_time_token (lower (strip ''08:05'')) = Inr ?tm"
    and h6: "instant (replace_tzinfo IST (combine (date_of example_time) ?tm))
        \<le> instant example_time"
    and h7: "add_one_day (date_of example_time) = Inr ?next"
    by blast+
  show ?thesis
    by (intro conjI) (fact h1 h2 h2' h3 h4 h5 h6 h7 run)+
qed

section \<open>The life cycle of a task\<close>

subsection \<open>The operations on one status\<close>

lemma status_of_store: "status_of s tid = status_in (store s) tid"
  by (simp add: status_of_def)

lemma status_in_update_task_status:
  "status_in (update_task_status tasks tid st res) k =
     (if k = tid \<and> status_in tasks tid \<noteq> None then Some st else status_in tasks k)"
  by (cases res)
    (auto simp: status_in_def update_task_status_def Let_def map_of_update_same
      map_of_update_other split: option.splits)

lemma keys_update_task_status: "map fst (update_task_status tasks tid st res) = map fst tasks"
  by (auto simp: update_task_status_def Let_def keys_update_present split: option.splits)

lemma status_in_cancel_task:
  "status_in (fst (cancel_task tasks tid)) k =
     (if k = tid \<and> status_in tasks tid = Some ''pending'' then Some ''cancelled''
      else status_in tasks k)"
  by (auto simp: status_in_def cancel_task_def map_of_update_same map_of_update_other
      split: option.splits)

lemma keys_cancel_task: "map fst (fst (cancel_task tasks tid)) = map fst tasks"
  by (auto simp: cancel_task_def keys_update_present split: option.splits)

lemma status_in_run_hackrx_task:
  "status_in (run_hackrx_task tasks tid out) k = status_in tasks k
   \<or> (k = tid \<and> status_in tasks tid \<noteq> None
       \<and> (status_in (run_hackrx_task tasks tid out) k = Some ''completed''
          \<or> status_in (run_hackrx_task tasks tid out) k = Some ''failed''))"
  by (auto simp: run_hackrx_task_def status_in_update_task_status split: outcome.splits option.splits)

lemma status_in_run_hackrx_task_same:
  "status_in tasks tid \<noteq> None \<Longrightarrow>
     status_in (run_hackrx_task tasks tid out) tid = Some ''completed''
     \<or> status_in (run_hackrx_task tasks tid out) tid = Some ''failed''"
  by (auto simp: run_hackrx_task_def status_in_update_task_status split: outcome.splits option.splits)

lemma keys_run_hackrx_task: "map fst (run_hackrx_task tasks tid out) = map fst tasks"
  by (auto simp: run_hackrx_task_def keys_update_task_status split: outcome.splits option.splits)

lemma status_in_handle_notes_input:
  "status_in (handle_notes_input tasks uid url sched txt t now) k =
     (if k = make_task_id uid t then Some ''pending'' else status_in tasks k)"
  by (simp add: status_in_def handle_notes_input_def add_task_def task_id_new_task
      map_of_update_same map_of_update_other new_task_def)

subsection \<open>A scan of the dispatcher\<close>

lemma started_run_due:
  "snd (run_due now ts tasks) = map task_id (filter (\<lambda>task. dt_le (scheduled_time task) now) ts)"
  by (induction ts arbitrary: tasks) (simp_all add: split_beta)

lemma status_in_run_due:
  "status_in (fst (run_due now ts tasks)) k =
     (if k \<in> set (snd (run_due now ts tasks)) \<and> status_in tasks k \<noteq> None
      then Some ''running'' else status_in tasks k)"
proof (induction ts arbitrary: tasks)
  case Nil
  then show ?case by simp
next
  case (Cons task ts)
  show ?case
  proof (cases "dt_le (scheduled_time task) now")
    case False
    then show ?thesis by (simp add: Cons.IH)
  next
    case True
    let ?tasks1 = "update_task_status tasks (task_id task) ''running'' None"
    have started: "snd (run_due now ts ?tasks1) = snd (run_due now ts tasks)"
      by (simp add: started_run_due)
    have "status_in (fst (run_due now (task # ts) tasks)) k
        = status_in (fst (run_due now ts ?tasks1)) k"
      using True by (simp add: split_beta)
    also have "\<dots> = (if k \<in> set (snd (run_due now ts ?tasks1)) \<and> status_in ?tasks1 k \<noteq> None
        then Some ''running'' else status_in ?tasks1 k)"
      by (rule Cons.IH)
    also have "\<dots> = (if k \<in> set (snd (run_due now (task # ts) tasks)) \<and> status_in tasks k \<noteq> None
        then Some ''running'' else status_in tasks k)"
      using True
      by (auto simp: started status_in_update_task_status split_beta)
    finally show ?thesis .
  qed
qed

lemma keys_run_due: "map fst (fst (run_due now ts tasks)) = map fst tasks"
  by (induction ts arbitrary: tasks) (simp_all add: keys_update_task_status split_beta)

lemma filed_lookup:
  assumes "filed tasks" and "task \<in> set (map snd tasks)"
  shows "map_of tasks (task_id task) = Some task"
proof -
  from assms(2) obtain k where in_set: "(k, task) \<in> set tasks" by auto
  with assms(1) have "task_id task = k"
    by (auto simp: filed_def list_all_iff)
  with in_set assms(1) show ?thesis by (simp add: filed_def)
qed

lemma started_are_pending:
  assumes "filed tasks" and "k \<in> set (snd (check_and_run_tasks now tasks))"
  shows "status_in tasks k = Some ''pending''"
proof -
  from assms(2) obtain task where "task \<in> set (map snd tasks)" "status task = ''pending''"
    "task_id task = k"
    by (auto simp: check_and_run_tasks_def started_run_due get_pending_tasks_def)
  with filed_lookup [OF assms(1)] show ?thesis
    by (auto simp: status_in_def)
qed

lemma filed_ids:
  "list_all (\<lambda>(k, task). task_id task = k) tasks \<Longrightarrow> map task_id (map snd tasks) = map fst tasks"
  by (induction tasks) auto

lemma started_distinct:
  assumes "filed tasks"
  shows "distinct (snd (check_and_run_tasks now tasks))"
proof -
  have "map task_id (map snd tasks) = map fst tasks"
    using assms by (intro filed_ids) (simp add: filed_def)
  moreover have "distinct (map fst tasks)"
    using assms by (simp add: filed_def)
  ultimately have "distinct (map task_id (map snd tasks))"
    by (simp only:)
  then have "distinct (map task_id (filter (\<lambda>task. dt_le (scheduled_time task) now)
      (filter (\<lambda>task. status task = ''pending'') (map snd tasks))))"
    by (simp add: distinct_map_filter)
  then show ?thesis
    by (simp add: check_and_run_tasks_def started_run_due get_pending_tasks_def)
qed

subsection \<open>Every operation keeps the store filed\<close>

lemma filed_update:
  assumes "filed tasks" and "task_id task = k"
  shows "filed (AList.update k task tasks)"
proof -
  have "list_all (\<lambda>(k, task). task_id task = k) al \<Longrightarrow>
      list_all (\<lambda>(k, task). task_id task = k) (AList.update k task al)" for al
    using assms(2) by (induction al) auto
  with assms(1) show ?thesis
    by (simp add: filed_def distinct_update)
qed

lemma filed_task_id:
  assumes "filed tasks" and "map_of tasks k = Some task"
  shows "task_id task = k"
proof -
  from assms(2) have "(k, task) \<in> set tasks" by (rule map_of_SomeD)
  with assms(1) show ?thesis by (auto simp: filed_def list_all_iff)
qed

lemma filed_update_task_status:
  assumes "filed tasks"
  shows "filed (update_task_status tasks tid st res)"
proof (cases "map_of tasks tid")
  case None
  with assms show ?thesis by (simp add: update_task_status_def)
next
  case (Some task)
  with assms have "task_id task = tid" by (rule filed_task_id)
  with assms Some show ?thesis
    by (simp add: update_task_status_def Let_def filed_update)
qed

lemma filed_cancel_task:
  assumes "filed tasks"
  shows "filed (fst (cancel_task tasks tid))"
proof (cases "map_of tasks tid")
  case None
  with assms show ?thesis by (simp add: cancel_task_def)
next
  case (Some task)
  with assms have "task_id task = tid" by (rule filed_task_id)
  with assms Some show ?thesis
    by (simp add: cancel_task_def filed_update)
qed

lemma filed_run_due: "filed tasks \<Longrightarrow> filed (fst (run_due now ts tasks))"
  by (induction ts arbitrary: tasks) (simp_all add: filed_update_task_status split_beta)

lemma filed_run_hackrx_task: "filed tasks \<Longrightarrow> filed (run_hackrx_task tasks tid out)"
  by (auto simp: run_hackrx_task_def filed_update_task_status split: outcome.splits option.splits)

lemma filed_handle_notes_input:
  "filed tasks \<Longrightarrow> filed (handle_notes_input tasks uid url sched txt t now)"
  by (simp add: handle_notes_input_def add_task_def filed_update)

subsection \<open>One operation\<close>

lemma status_in_check_and_run_tasks:
  assumes "filed tasks"
  shows "status_in (fst (check_and_run_tasks now tasks)) k =
     (if k \<in> set (snd (check_and_run_tasks now tasks)) then Some ''running''
      else status_in tasks k)"
proof (cases "k \<in> set (snd (check_and_run_tasks now tasks))")
  case True
  with assms have "status_in tasks k = Some ''pending''" by (rule started_are_pending)
  with True show ?thesis
    by (simp add: check_and_run_tasks_def status_in_run_due)
next
  case False
  then show ?thesis
    by (simp add: check_and_run_tasks_def status_in_run_due)
qed

lemma step_life_cycle:
  assumes wf: "well_formed s" and fresh: "fresh_event e s"
  shows "life_cycle_step (status_of s tid) (status_of (step e s) tid)"
proof (cases e)
  case (Create uid url sched msg t now)
  with fresh have "status_of s (make_task_id uid t) = None"
    by (simp add: status_of_def status_in_def)
  with Create show ?thesis
    by (auto simp: life_cycle_step_def status_of_def status_in_handle_notes_input)
next
  case (Scan now)
  from wf have f: "filed (store s)" by (simp add: well_formed_def)
  show ?thesis
  proof (cases "tid \<in> set (snd (check_and_run_tasks now (store s)))")
    case True
    with f have "status_in (store s) tid = Some ''pending''" by (rule started_are_pending)
    with True Scan f show ?thesis
      by (simp add: life_cycle_step_def status_of_def status_in_check_and_run_tasks split_beta)
  next
    case False
    with Scan f show ?thesis
      by (simp add: life_cycle_step_def status_of_def status_in_check_and_run_tasks split_beta)
  qed
next
  case (Finish k out)
  show ?thesis
  proof (cases "k \<in> set (in_flight s)")
    case False
    with Finish show ?thesis by (simp add: life_cycle_step_def)
  next
    case True
    with wf have running: "status_in (store s) k = Some ''running''"
      by (auto simp: well_formed_def list_all_iff status_of_def)
    show ?thesis
    proof (cases "tid = k")
      case True
      from running have "status_in (store s) k \<noteq> None" by simp
      from status_in_run_hackrx_task_same [OF this, of out] running True Finish \<open>k \<in> set (in_flight s)\<close>
      show ?thesis
        by (auto simp: life_cycle_step_def status_of_def)
    next
      case False
      with status_in_run_hackrx_task [of "store s" k out tid] Finish True
      show ?thesis
        by (auto simp: life_cycle_step_def status_of_def)
    qed
  qed
next
  case (Cancel k)
  then show ?thesis
    by (auto simp: life_cycle_step_def status_of_def status_in_cancel_task)
qed

lemma step_well_formed:
  assumes wf: "well_formed s" and fresh: "fresh_event e s"
  shows "well_formed (step e s)"
proof -
  from wf have f: "filed (store s)" and d: "distinct (in_flight s)"
    and r: "\<And>k. k \<in> set (in_flight s) \<Longrightarrow> status_in (store s) k = Some ''running''"
    by (auto simp: well_formed_def list_all_iff status_of_def)
  show ?thesis
  proof (cases e)
    case (Create uid url sched msg t now)
    with fresh have none: "status_in (store s) (make_task_id uid t) = None"
      by (simp add: status_in_def)
    have "status_in (handle_notes_input (store s) uid url sched msg t now) k = Some ''running''"
      if "k \<in> set (in_flight s)" for k
      using r [OF that] none by (auto simp: status_in_handle_notes_input)
    with Create f d show ?thesis
      by (simp add: well_formed_def list_all_iff status_of_def filed_handle_notes_input)
  next
    case (Scan now)
    let ?started = "snd (check_and_run_tasks now (store s))"
    have pending: "\<And>k. k \<in> set ?started \<Longrightarrow> status_in (store s) k = Some ''pending''"
      using f by (rule started_are_pending)
    have disjoint: "set (in_flight s) \<inter> set ?started = {}"
      using r pending by fastforce
    have "distinct (in_flight s @ ?started)"
      using d started_distinct [OF f, of now] disjoint by simp
    moreover have "status_in (fst (check_and_run_tasks now (store s))) k = Some ''running''"
      if "k \<in> set (in_flight s @ ?started)" for k
      using that r by (auto simp: status_in_check_and_run_tasks [OF f])
    moreover have "filed (fst (check_and_run_tasks now (store s)))"
      using f by (simp add: check_and_run_tasks_def filed_run_due)
    ultimately show ?thesis
      using Scan by (simp add: well_formed_def list_all_iff status_of_def split_beta)
  next
    case (Finish k out)
    show ?thesis
    proof (cases "k \<in> set (in_flight s)")
      case False
      with Finish wf show ?thesis by simp
    next
      case True
      have "status_in (run_hackrx_task (store s) k out) j = Some ''running''"
        if "j \<in> set (remove1 k (in_flight s))" for j
      proof -
        from that d have "j \<noteq> k" and "j \<in> set (in_flight s)" by auto
        with status_in_run_hackrx_task [of "store s" k out j] r show ?thesis by auto
      qed
      with Finish True f d show ?thesis
        by (simp add: well_formed_def list_all_iff status_of_def filed_run_hackrx_task)
    qed
  next
    case (Cancel k)
    have "status_in (fst (cancel_task (store s) k)) j = Some ''running''"
      if "j \<in> set (in_flight s)" for j
      using r [OF that] by (auto simp: status_in_cancel_task)
    with Cancel f d show ?thesis
      by (simp add: well_formed_def list_all_iff status_of_def filed_cancel_task)
  qed
qed

lemma well_formed_initial: "well_formed initial"
  by (simp add: well_formed_def initial_def filed_def)

subsection \<open>A sequence of operations\<close>

lemma last_run_Cons: "last (run s (e # es)) = last (run (step e s) es)"
  by (cases es) simp_all

lemma run_not_empty: "run s es \<noteq> []"
  by (cases es) simp_all

lemma fresh_ids_append:
  "fresh_ids s (es @ [e]) \<longleftrightarrow> fresh_ids s es \<and> fresh_event e (last (run s es))"
  by (induction es arbitrary: s) (simp_all add: last_run_Cons run_not_empty)

lemma well_formed_last:
  "well_formed s \<Longrightarrow> fresh_ids s es \<Longrightarrow> well_formed (last (run s es))"
proof (induction es arbitrary: s)
  case Nil
  then show ?case by simp
next
  case (Cons e es)
  then have "well_formed (last (run (step e s) es))"
    by (simp add: step_well_formed)
  then show ?case by (simp only: last_run_Cons)
qed

subsection \<open>The sequence of status values\<close>

lemma status_history_Nil:
  "status_history tid s [] = (case status_of s tid of None \<Rightarrow> [] | Some st \<Rightarrow> [st])"
  by (simp add: status_history_def map_filter_simps split: option.splits)

lemma status_history_Cons:
  "status_history tid s (e # es) =
     (case status_of s tid of
        None \<Rightarrow> status_history tid (step e s) es
      | Some st \<Rightarrow>
          (case status_history tid (step e s) es of
             [] \<Rightarrow> [st]
           | y # ys \<Rightarrow> if st = y then y # ys else st # y # ys))"
  by (simp add: status_history_def map_filter_simps remdups_adj_Cons split: option.splits)

lemma continuations_head:
  "h \<in> set (continuations (Some st)) \<Longrightarrow> \<exists>ys. h = st # ys"
  by (auto simp: continuations_def split: if_splits)

lemma continuations_same:
  assumes "h \<in> set (continuations (Some st))"
  shows "(case h of [] \<Rightarrow> [st] | y # ys \<Rightarrow> if st = y then y # ys else st # y # ys) = h"
  using continuations_head [OF assms] by auto

lemma continuations_pending:
  "continuations (Some ''pending'') =
     [[''pending''], [''pending'', ''running''], [''pending'', ''running'', ''completed''],
      [''pending'', ''running'', ''failed''], [''pending'', ''cancelled'']]"
  by (simp add: continuations_def)

lemma continuations_running:
  "continuations (Some ''running'') =
     [[''running''], [''running'', ''completed''], [''running'', ''failed'']]"
  by (simp add: continuations_def)

lemma continuations_terminal:
  "continuations (Some ''completed'') = [[''completed'']]"
  "continuations (Some ''failed'') = [[''failed'']]"
  "continuations (Some ''cancelled'') = [[''cancelled'']]"
  by (simp_all add: continuations_def)

lemma continuations_None:
  "continuations None = [] # continuations (Some ''pending'')"
  by (simp add: continuations_def)

lemma life_cycle_step_cases:
  assumes "life_cycle_step a b"
  obtains (c_same) "a = b"
    | (c_create) "a = None" "b = Some ''pending''"
    | (c_claim) "a = Some ''pending''" "b = Some ''running''"
    | (c_cancel) "a = Some ''pending''" "b = Some ''cancelled''"
    | (c_done) "a = Some ''running''" "b = Some ''completed''"
    | (c_fail) "a = Some ''running''" "b = Some ''failed''"
proof -
  from assms have "a = b
      \<or> (a = None \<and> b = Some ''pending'')
      \<or> (a = Some ''pending'' \<and> b = Some ''running'')
      \<or> (a = Some ''pending'' \<and> b = Some ''cancelled'')
      \<or> (a = Some ''running'' \<and> b = Some ''completed'')
      \<or> (a = Some ''running'' \<and> b = Some ''failed'')"
    by (simp only: life_cycle_step_def)
  then show thesis
    by (elim disjE conjE) (erule that, assumption?)+
qed

lemma continuations_step:
  assumes step: "life_cycle_step a b" and h: "h \<in> set (continuations b)"
  shows "(case a of
            None \<Rightarrow> h
          | Some st \<Rightarrow> (case h of [] \<Rightarrow> [st] | y # ys \<Rightarrow> if st = y then y # ys else st # y # ys))
         \<in> set (continuations a)"
proof -
  from step show ?thesis
  proof (cases rule: life_cycle_step_cases)
    case c_same
    show ?thesis
    proof (cases a)
      case None
      with c_same h show ?thesis by simp
    next
      case (Some st)
      with c_same h have "h \<in> set (continuations (Some st))" by simp
      from continuations_same [OF this] this Some show ?thesis by simp
    qed
  next
    case c_create
    with h show ?thesis by (simp add: continuations_None)
  next
    case c_claim
    with h have "h = [''running''] \<or> h = [''running'', ''completed'']
        \<or> h = [''running'', ''failed'']"
      by (simp add: continuations_running)
    then show ?thesis
      by (elim disjE) (simp_all add: c_claim continuations_pending)
  next
    case c_cancel
    with h have "h = [''cancelled'']"
      by (simp add: continuations_terminal)
    then show ?thesis
      by (simp add: c_cancel continuations_pending)
  next
    case c_done
    with h have "h = [''completed'']"
      by (simp add: continuations_terminal)
    then show ?thesis
      by (simp add: c_done continuations_running)
  next
    case c_fail
    with h have "h = [''failed'']"
      by (simp add: continuations_terminal)
    then show ?thesis
      by (simp add: c_fail continuations_running)
  qed
qed

lemma status_history_continuation:
  "well_formed s \<Longrightarrow> fresh_ids s es \<Longrightarrow>
     status_history tid s es \<in> set (continuations (status_of s tid))"
proof (induction es arbitrary: s)
  case Nil
  then show ?case
    by (auto simp: status_history_Nil continuations_def split: option.splits)
next
  case (Cons e es)
  then have wf: "well_formed s" and fe: "fresh_event e s" and fr: "fresh_ids (step e s) es"
    by simp_all
  from wf fe have "well_formed (step e s)" by (rule step_well_formed)
  from this fr have h: "status_history tid (step e s) es
      \<in> set (continuations (status_of (step e s) tid))"
    by (rule Cons.IH)
  from wf fe have "life_cycle_step (status_of s tid) (status_of (step e s) tid)"
    by (rule step_life_cycle)
  from continuations_step [OF this h] show ?case
    by (simp only: status_history_Cons)
qed

lemma continuations_None_prefix:
  assumes "h \<in> set (continuations None)"
  shows "prefix h [''pending'', ''running'', ''completed'']
     \<or> prefix h [''pending'', ''running'', ''failed'']
     \<or> prefix h [''pending'', ''cancelled'']"
proof -
  from assms have "h = [] \<or> h = [''pending''] \<or> h = [''pending'', ''running'']
      \<or> h = [''pending'', ''running'', ''completed'']
      \<or> h = [''pending'', ''running'', ''failed''] \<or> h = [''pending'', ''cancelled'']"
    by (simp add: continuations_None continuations_pending)
  then show ?thesis
    by (elim disjE) simp_all
qed

lemma status_of_initial: "status_of initial tid = None"
  by (simp add: status_of_def status_in_def initial_def)

text \<open>
  The life cycle where no id is used twice. Provided every task that is created gets an
  id the store does not hold yet, the status values that the task under an id takes, from
  the start of the program and under any sequence of creations, scans of the dispatcher,
  ends of workers and cancellations, are a prefix of pending, running, completed, or of
  pending, running, failed, or of pending, cancelled. Each single operation of such a
  sequence leaves the status under an id as it is or makes one step of these three; it
  leaves a completed, failed or cancelled task as it is; and a cancellation changes
  nothing but a pending task, to cancelled.
\<close>

theorem task_status_life_cycle:
  "(fresh_ids initial es \<longrightarrow>
      prefix (status_history tid initial es) [''pending'', ''running'', ''completed'']
      \<or> prefix (status_history tid initial es) [''pending'', ''running'', ''failed'']
      \<or> prefix (status_history tid initial es) [''pending'', ''cancelled''])
   \<and> (fresh_ids initial (es @ [e]) \<longrightarrow>
        life_cycle_step (status_of (last (run initial es)) tid)
          (status_of (step e (last (run initial es))) tid)
        \<and> (status_of (last (run initial es)) tid = Some ''completed''
             \<or> status_of (last (run initial es)) tid = Some ''failed''
             \<or> status_of (last (run initial es)) tid = Some ''cancelled''
            \<longrightarrow> status_of (step e (last (run initial es))) tid
                  = status_of (last (run initial es)) tid))
   \<and> (status_of (step (Cancel k) s) tid \<noteq> status_of s tid \<longrightarrow>
        tid = k \<and> status_of s tid = Some ''pending''
        \<and> status_of (step (Cancel k) s) tid = Some ''cancelled'')"
proof (intro conjI impI)
  assume "fresh_ids initial es"
  with well_formed_initial
  have "status_history tid initial es \<in> set (continuations (status_of initial tid))"
    by (rule status_history_continuation)
  then have "status_history tid initial es \<in> set (continuations None)"
    by (simp only: status_of_initial)
  then show "prefix (status_history tid initial es) [''pending'', ''running'', ''completed'']
      \<or> prefix (status_history tid initial es) [''pending'', ''running'', ''failed'']
      \<or> prefix (status_history tid initial es) [''pending'', ''cancelled'']"
    by (rule continuations_None_prefix)
next
  assume "fresh_ids initial (es @ [e])"
  then have fr: "fresh_ids initial es" and fe: "fresh_event e (last (run initial es))"
    by (simp_all add: fresh_ids_append)
  from well_formed_initial fr have wf: "well_formed (last (run initial es))"
    by (rule well_formed_last)
  from wf fe show step: "life_cycle_step (status_of (last (run initial es)) tid)
      (status_of (step e (last (run initial es))) tid)"
    by (rule step_life_cycle)
  assume "status_of (last (run initial es)) tid = Some ''completed''
      \<or> status_of (last (run initial es)) tid = Some ''failed''
      \<or> status_of (last (run initial es)) tid = Some ''cancelled''"
  with step show "status_of (step e (last (run initial es))) tid
      = status_of (last (run initial es)) tid"
    by (auto simp: life_cycle_step_def)
next
  assume changed: "status_of (step (Cancel k) s) tid \<noteq> status_of s tid"
  then show "tid = k"
    by (auto simp: status_of_def status_in_cancel_task split: if_splits)
  from changed show "status_of s tid = Some ''pending''"
    by (auto simp: status_of_def status_in_cancel_task split: if_splits)
  from changed show "status_of (step (Cancel k) s) tid = Some ''cancelled''"
    by (auto simp: status_of_def status_in_cancel_task split: if_splits)
qed

subsection \<open>Two runs\<close>

lemma digit_chars:
  "map digit_char [0, 1, 2, 3, 4, 5, 6, 7, 8, 9] = ''0123456789''"
  by code_simp

lemma example_ids:
  "make_task_id 7 (17053074003 / 10) = ''task_7_1705307400''"
  "make_task_id 7 (17053074007 / 10) = ''task_7_1705307400''"
  using digit_chars by (simp_all add: make_task_id_def int_of_float_def str_int_def)

lemma example_due: "dt_le example_time example_time"
  by (simp add: dt_le_def)

lemma run_with_fresh_id:
  "fresh_ids initial
     [Create 7 ''https://example.org/hook'' example_time ''run 1'' (17053074003 / 10) example_time,
      Scan example_time,
      Finish ''task_7_1705307400'' (Returned [(''success'', PBool True)])]
   \<and> status_history ''task_7_1705307400'' initial
     [Create 7 ''https://example.org/hook'' example_time ''run 1'' (17053074003 / 10) example_time,
      Scan example_time,
      Finish ''task_7_1705307400'' (Returned [(''success'', PBool True)])]
     = [''pending'', ''running'', ''completed'']"
  by (simp add: status_history_def status_of_def status_in_def initial_def map_filter_simps
      handle_notes_input_def add_task_def new_task_def example_ids check_and_run_tasks_def
      get_pending_tasks_def example_due update_task_status_def run_hackrx_task_def)

lemma run_with_repeated_id:
  "status_history ''task_7_1705307400'' initial
     [Create 7 ''https://example.org/hook'' example_time ''run 1'' (17053074003 / 10) example_time,
      Scan example_time,
      Create 7 ''https://example.org/hook'' example_time ''run 2'' (17053074007 / 10) example_time,
      Finish ''task_7_1705307400'' (Returned [(''success'', PBool True)])]
     = [''pending'', ''running'', ''pending'', ''completed'']"
  by (simp add: status_history_def status_of_def status_in_def initial_def map_filter_simps
      handle_notes_input_def add_task_def new_task_def example_ids check_and_run_tasks_def
      get_pending_tasks_def example_due update_task_status_def run_hackrx_task_def)


text \<open>
  Claim C2. The claim fails where an id is used twice. The id of a task is made of the
  user and of the second of the clock, so two intakes of one user within a second give
  the same id, and \<^verbatim>\<open>add_task\<close> files the second task over the first. Here user 7
  ends an intake at 1705307400.3, the dispatcher scans and hands the task to a worker, the
  user ends another intake at 1705307400.7, and the worker ends with success: the status
  under the id goes pending, running, pending, completed, which is a prefix of none of
  the three sequences of the life cycle, and the second task, with the notes \<open>run 2\<close>,
  is completed without ever having been running.
\<close>

theorem repeated_id_breaks_life_cycle:
  "make_task_id 7 (17053074003 / 10) = make_task_id 7 (17053074007 / 10)
   \<and> status_history ''task_7_1705307400'' initial
     [Create 7 ''https://example.org/hook'' example_time ''run 1'' (17053074003 / 10) example_time,
      Scan example_time,
      Create 7 ''https://example.org/hook'' example_time ''run 2'' (17053074007 / 10) example_time,
      Finish ''task_7_1705307400'' (Returned [(''success'', PBool True)])]
     = [''pending'', ''running'', ''pending'', ''completed'']
   \<and> \<not> prefix [''pending'', ''running'', ''pending'', ''completed'']
         [''pending'', ''running'', ''completed'']
   \<and> \<not> prefix [''pending'', ''running'', ''pending'', ''completed'']
         [''pending'', ''running'', ''failed'']
   \<and> \<not> prefix [''pending'', ''running'', ''pending'', ''completed'']
         [''pending'', ''cancelled'']
   \<and> map_option (\<lambda>task. (task_notes task, status task))
        (map_of (store (last (run initial
          [Create 7 ''https://example.org/hook'' example_time ''run 1'' (17053074003 / 10)
             example_time,
           Scan example_time,
           Create 7 ''https://example.org/hook'' example_time ''run 2'' (17053074007 / 10)
             example_time]))) ''task_7_1705307400'')
       = Some (''run 2'', ''pending'')
   \<and> map_option (\<lambda>task. (task_notes task, status task))
        (map_of (store (last (run initial
          [Create 7 ''https://example.org/hook'' example_time ''run 1'' (17053074003 / 10)
             example_time,
           Scan example_time,
           Create 7 ''https://example.org/hook'' example_time ''run 2'' (17053074007 / 10)
             example_time,
           Finish ''task_7_1705307400'' (Returned [(''success'', PBool True)])])))
          ''task_7_1705307400'')
       = Some (''run 2'', ''completed'')"
proof -
  have ids: "make_task_id 7 (17053074003 / 10) = make_task_id 7 (17053074007 / 10)"
    by (simp only: example_ids)
  have stored: "map_option (\<lambda>task. (task_notes task, status task))
        (map_of (store (last (run initial
          [Create 7 ''https://example.org/hook'' example_time ''run 1'' (17053074003 / 10)
             example_time,
           Scan example_time,
           Create 7 ''https://example.org/hook'' example_time ''run 2'' (17053074007 / 10)
             example_time]))) ''task_7_1705307400'')
       = Some (''run 2'', ''pending'')"
    by (simp add: initial_def handle_notes_input_def add_task_def new_task_def example_ids
        check_and_run_tasks_def get_pending_tasks_def example_due update_task_status_def)
  have ended: "map_option (\<lambda>task. (task_notes task, status task))
        (map_of (store (last (run initial
          [Create 7 ''https://example.org/hook'' example_time ''run 1'' (17053074003 / 10)
             example_time,
           Scan example_time,
           Create 7 ''https://example.org/hook'' example_time ''run 2'' (17053074007 / 10)
             example_time,
           Finish ''task_7_1705307400'' (Returned [(''success'', PBool True)])])))
          ''task_7_1705307400'')
       = Some (''run 2'', ''completed'')"
    by (simp add: initial_def handle_notes_input_def add_task_def new_task_def example_ids
        check_and_run_tasks_def get_pending_tasks_def example_due update_task_status_def
        run_hackrx_task_def)
  have p1: "\<not> prefix [''pending'', ''running'', ''pending'', ''completed'']
         [''pending'', ''running'', ''completed'']"
    and p2: "\<not> prefix [''pending'', ''running'', ''pending'', ''completed'']
         [''pending'', ''running'', ''failed'']"
    and p3: "\<not> prefix [''pending'', ''running'', ''pending'', ''completed'']
         [''pending'', ''cancelled'']"
    by simp_all
  show ?thesis
    by (intro conjI) (fact ids run_with_repeated_id stored ended p1 p2 p3)+
qed

end
